theory Spec2Isabelle
  imports Complex_Main
begin

section \<open>Hybrid A* coarse trajectory generator (hybrid_a_star.cc)\<close>

text \<open>
  A shallow embedding of \<^verbatim>\<open>HybridAStar\<close> from
  \<^verbatim>\<open>modules/planning/open_space/coarse_trajectory_generator/hybrid_a_star.cc\<close>.

  Conventions of the embedding:
  \<^item> a \<^verbatim>\<open>double\<close> is a \<^typ>\<open>real\<close>: rounding, infinities and NaN are not modelled.
    Where the source divides by a configuration value that may be zero and the outcome
    of the IEEE division changes the control flow, the case is a branch of the model
    (\<open>Next_node_generator\<close>); where it only changes a value (\<open>delta_t\<close>, \<open>wheel_base\<close>,
    the steering sweep for two primitives) the model has the quotient of \<^typ>\<open>real\<close>,
    and the properties below state the value by the same quotient;
  \<^item> a \<^verbatim>\<open>size_t\<close> is a \<^typ>\<open>nat\<close> below \<open>2 ^ 64\<close>; subtraction on it wraps
    around and is written out in \<open>size_t_sub\<close>;
  \<^item> a \<^verbatim>\<open>std::vector\<close> is a list; a read outside the vector is undefined behaviour
    in C++ and the fault \<open>OutOfRange\<close> here;
  \<^item> a \<^verbatim>\<open>std::shared_ptr<Node3d>\<close> is a node value, \<^verbatim>\<open>nullptr\<close> is \<open>None\<close>.
    A node is never changed once it has been stored in a container, so sharing is not
    observable;
  \<^item> the collaborators whose code lives in other files (geometry, Reeds-Shepp curves,
    the grid heuristic, the grid index of a node) are the fields of the record
    \<open>collab\<close>, and every function that calls one takes the record as a parameter.
\<close>

subsection \<open>Machine sizes and faults\<close>

datatype fault = OutOfRange | NullDeref | Diverges

definition size_t_sub :: "nat \<Rightarrow> nat \<Rightarrow> nat" where
  \<comment> \<open>\<open>a - b\<close> on \<^verbatim>\<open>size_t\<close>: modulo \<open>2 ^ 64\<close>.\<close>
  "size_t_sub a b = (if b \<le> a then a - b else a + 2 ^ 64 - b)"

definition vec_at :: "'a list \<Rightarrow> nat \<Rightarrow> fault + 'a" where
  \<comment> \<open>\<^verbatim>\<open>v[i]\<close> on a \<^verbatim>\<open>std::vector\<close>.\<close>
  "vec_at v i = (if i < length v then Inr (v ! i) else Inl OutOfRange)"

definition iter_at :: "'a list \<Rightarrow> int \<Rightarrow> fault + 'a" where
  \<comment> \<open>\<^verbatim>\<open>*(v.begin() + k)\<close>: the iterator must point at an element.\<close>
  "iter_at v k = (if 0 \<le> k \<and> k < int (length v) then Inr (v ! nat k) else Inl OutOfRange)"

definition fbind :: "fault + 'a \<Rightarrow> ('a \<Rightarrow> fault + 'b) \<Rightarrow> fault + 'b" where
  \<comment> \<open>sequencing: a fault ends the computation\<close>
  "fbind m f = (case m of Inl e \<Rightarrow> Inl e | Inr a \<Rightarrow> f a)"

subsection \<open>Data\<close>

type_synonym Vec2d = "real \<times> real"

record LineSegment2d =
  seg_start :: Vec2d
  seg_end :: Vec2d

text \<open>
  Modelled from the spec: \<^verbatim>\<open>XYbounds\<close> is an array of 4 doubles
  \<^verbatim>\<open>[xmin, xmax, ymin, ymax]\<close>. The source holds it in a \<^verbatim>\<open>std::vector<double>\<close> that it
  reads at the indices 0 to 3 only; its length is fixed by the callers and by the
  constructor of \<^verbatim>\<open>Node3d\<close>, which are not among the sources. The type below has
  exactly these four entries.
\<close>

record XYbounds =
  XYbounds_0 :: real
  XYbounds_1 :: real
  XYbounds_2 :: real
  XYbounds_3 :: real

text \<open>
  Modelled from the spec: the class \<^verbatim>\<open>Node3d\<close> is declared in node3d.h, which is not
  among the sources. A node holds the pose sequences of the edge that arrives at it
  (\<^verbatim>\<open>xs, ys, phis\<close>), its predecessor, the direction and steering of the incoming edge
  and its two costs; \<^verbatim>\<open>step_size = len(xs)\<close>; the representative pose is the last
  entry of each sequence; total cost is the sum of the two costs.
\<close>

datatype Node3d = Node3d
  (GetXs: "real list")
  (GetYs: "real list")
  (GetPhis: "real list")
  (GetPreNode: "Node3d option")
  (GetDirec: bool)
  (GetSteer: real)
  (GetTrajCost: real)
  (GetHeuCost: real)

definition new_Node3d :: "real list \<Rightarrow> real list \<Rightarrow> real list \<Rightarrow> Node3d" where
  \<comment> \<open>the constructor from three pose sequences: no predecessor, forward, no steering, no cost\<close>
  "new_Node3d xs ys phis = Node3d xs ys phis None True 0 0 0"

definition GetStepSize :: "Node3d \<Rightarrow> nat" where
  "GetStepSize n = length (GetXs n)"

definition GetX :: "Node3d \<Rightarrow> real" where
  "GetX n = last (GetXs n)"

definition GetY :: "Node3d \<Rightarrow> real" where
  "GetY n = last (GetYs n)"

definition GetPhi :: "Node3d \<Rightarrow> real" where
  "GetPhi n = last (GetPhis n)"

definition GetCost :: "Node3d \<Rightarrow> real" where
  "GetCost n = GetTrajCost n + GetHeuCost n"

definition SetPre :: "Node3d \<Rightarrow> Node3d \<Rightarrow> Node3d" where
  "SetPre p n = Node3d (GetXs n) (GetYs n) (GetPhis n) (Some p) (GetDirec n) (GetSteer n)
     (GetTrajCost n) (GetHeuCost n)"

definition SetDirec :: "bool \<Rightarrow> Node3d \<Rightarrow> Node3d" where
  "SetDirec d n = Node3d (GetXs n) (GetYs n) (GetPhis n) (GetPreNode n) d (GetSteer n)
     (GetTrajCost n) (GetHeuCost n)"

definition SetSteer :: "real \<Rightarrow> Node3d \<Rightarrow> Node3d" where
  "SetSteer s n = Node3d (GetXs n) (GetYs n) (GetPhis n) (GetPreNode n) (GetDirec n) s
     (GetTrajCost n) (GetHeuCost n)"

definition SetTrajCost :: "real \<Rightarrow> Node3d \<Rightarrow> Node3d" where
  "SetTrajCost c n = Node3d (GetXs n) (GetYs n) (GetPhis n) (GetPreNode n) (GetDirec n)
     (GetSteer n) c (GetHeuCost n)"

definition SetHeuCost :: "real \<Rightarrow> Node3d \<Rightarrow> Node3d" where
  "SetHeuCost c n = Node3d (GetXs n) (GetYs n) (GetPhis n) (GetPreNode n) (GetDirec n)
     (GetSteer n) (GetTrajCost n) c"

text \<open>The members the constructor of \<^verbatim>\<open>HybridAStar\<close> reads from the configuration.\<close>

record config =
  next_node_num :: nat
  max_steer_angle :: real
  step_size :: real
  xy_grid_resolution :: real
  delta_t :: real
  traj_forward_penalty :: real
  traj_back_penalty :: real
  traj_gear_switch_penalty :: real
  traj_steer_penalty :: real
  traj_steer_change_penalty :: real
  wheel_base :: real
  s_weight :: real
  velocity_weight :: real
  acc_weight :: real
  jerk_weight :: real
  ref_weight :: real
  FLAGS_use_s_curve_speed_smooth :: bool
  FLAGS_longitudinal_jerk_bound :: real

text \<open>
  What \<^verbatim>\<open>GenerateSCurveSpeedAcceleration\<close> hands to the \<^verbatim>\<open>PathTimeQpProblem\<close> before it calls
  \<^verbatim>\<open>Optimize\<close>: the arguments of \<^verbatim>\<open>InitProblem\<close> and of the setters, in the order of the calls.
\<close>

record PathTimeQpProblem =
  qp_num_var :: nat
  qp_delta_t :: real
  qp_w :: "real list"
  qp_init_s :: "real \<times> real \<times> real"
  qp_end_s :: "real \<times> real \<times> real"
  ZeroOrderBounds :: "real \<times> real"
  FirstOrderBounds :: "real \<times> real"
  SecondOrderBounds :: "real \<times> real"
  ThirdOrderBound :: real
  DesireDerivative :: real
  ZeroOrderReference :: "real list"

record HybridAStartResult =
  res_x :: "real list"
  res_y :: "real list"
  res_phi :: "real list"
  res_v :: "real list"
  res_a :: "real list"
  res_steer :: "real list"
  res_accumulated_s :: "real list"

text \<open>
  The collaborators, none of them in this file:
  \<^item> \<open>HasOverlap x y phi l\<close>: \<^verbatim>\<open>Node3d::GetBoundingBox(vehicle_param_, x, y, phi).HasOverlap(l)\<close>;
  \<^item> \<open>NormalizeAngle\<close>: \<^verbatim>\<open>common::math::NormalizeAngle\<close>;
  \<^item> \<open>ShortestRSP cur end\<close>: \<^verbatim>\<open>reed_shepp_generator_->ShortestRSP\<close>, \<open>None\<close> when it returns
    false, else the \<^verbatim>\<open>x, y, phi\<close> samples of the curve;
  \<^item> \<open>CheckDpMap\<close>: \<^verbatim>\<open>grid_a_star_heuristic_generator_->CheckDpMap\<close> after \<^verbatim>\<open>GenerateDpMap\<close>;
  \<^item> \<open>Optimize\<close>: \<^verbatim>\<open>PathTimeQpProblem::Optimize\<close>, \<open>None\<close> when it returns false, else
    \<^verbatim>\<open>x(), x_derivative(), x_second_order_derivative()\<close>;
  \<^item> \<open>GridIndex x y phi\<close>: the string \<^verbatim>\<open>Node3d::GetIndex\<close> returns for a node whose
    representative pose is \<open>(x, y, phi)\<close>, under the bounds and resolutions of the call.
\<close>

record collab =
  HasOverlap :: "real \<Rightarrow> real \<Rightarrow> real \<Rightarrow> LineSegment2d \<Rightarrow> bool"
  NormalizeAngle :: "real \<Rightarrow> real"
  ShortestRSP :: "Node3d \<Rightarrow> Node3d \<Rightarrow> (real list \<times> real list \<times> real list) option"
  CheckDpMap :: "real \<Rightarrow> real \<Rightarrow> real"
  Optimize :: "PathTimeQpProblem \<Rightarrow> (real list \<times> real list \<times> real list) option"
  GridIndex :: "real \<Rightarrow> real \<Rightarrow> real \<Rightarrow> string"

definition GetIndex :: "collab \<Rightarrow> Node3d \<Rightarrow> string" where
  "GetIndex E n = GridIndex E (GetX n) (GetY n) (GetPhi n)"

subsection \<open>ValidityCheck\<close>

function ValidityCheck_loop ::
  "collab \<Rightarrow> LineSegment2d list list \<Rightarrow> XYbounds \<Rightarrow> real list \<Rightarrow> real list \<Rightarrow> real list \<Rightarrow>
   nat \<Rightarrow> nat \<Rightarrow> fault + bool" where
  "ValidityCheck_loop E obs B tx ty tphi last_check_index i =
     (if i < last_check_index then
        (if length tx \<le> i then Inl OutOfRange
         else if tx ! i > XYbounds_1 B \<or> tx ! i < XYbounds_0 B then Inr False
         else if length ty \<le> i then Inl OutOfRange
         else if ty ! i > XYbounds_3 B \<or> ty ! i < XYbounds_2 B then Inr False
         else if length tphi \<le> i then Inl OutOfRange
         else if list_ex (\<lambda>obstacle_linesegments.
                   list_ex (\<lambda>linesegment. HasOverlap E (tx ! i) (ty ! i) (tphi ! i) linesegment)
                     obstacle_linesegments) obs
           then Inr False
         else ValidityCheck_loop E obs B tx ty tphi last_check_index (i + 1))
      else Inr True)"
  by pat_completeness auto
termination
  by (relation "measure (\<lambda>(E, obs, B, tx, ty, tphi, l, i). l - i)") auto

declare ValidityCheck_loop.simps [simp del]

definition ValidityCheck ::
  "collab \<Rightarrow> LineSegment2d list list \<Rightarrow> XYbounds \<Rightarrow> Node3d \<Rightarrow> fault + bool" where
  "ValidityCheck E obstacles_linesegments_vec B node =
     (if obstacles_linesegments_vec = [] then Inr True
      else
        let node_step_size = GetStepSize node;
            traversed_x = rev (GetXs node);
            traversed_y = rev (GetYs node);
            traversed_phi = rev (GetPhis node);
            last_check_index =
              (if node_step_size = 1 then 1 else size_t_sub node_step_size 1)
        in ValidityCheck_loop E obstacles_linesegments_vec B
             traversed_x traversed_y traversed_phi last_check_index 0)"

subsection \<open>The obstacle segments built by Plan\<close>

function segments_loop ::
  "Vec2d list \<Rightarrow> nat \<Rightarrow> nat \<Rightarrow> LineSegment2d list \<Rightarrow> fault + LineSegment2d list" where
  "segments_loop obstacle_vertices bound i obstacle_linesegments =
     (if i < bound then
        (case vec_at obstacle_vertices i of
           Inl f \<Rightarrow> Inl f
         | Inr p \<Rightarrow>
             (case vec_at obstacle_vertices (i + 1) of
                Inl f \<Rightarrow> Inl f
              | Inr q \<Rightarrow>
                  segments_loop obstacle_vertices bound (i + 1)
                    (obstacle_linesegments @ [\<lparr>seg_start = p, seg_end = q\<rparr>])))
      else Inr obstacle_linesegments)"
  by pat_completeness auto
termination
  by (relation "measure (\<lambda>(vs, bound, i, acc). bound - i)") auto

declare segments_loop.simps [simp del]

definition obstacle_segments :: "Vec2d list \<Rightarrow> fault + LineSegment2d list" where
  \<comment> \<open>the body of the outer loop: \<^verbatim>\<open>for (size_t i = 0; i < vertices_num - 1; ++i)\<close>\<close>
  "obstacle_segments obstacle_vertices =
     (let vertices_num = length obstacle_vertices
      in segments_loop obstacle_vertices (size_t_sub vertices_num 1) 0 [])"

fun obstacles_segments :: "Vec2d list list \<Rightarrow> fault + LineSegment2d list list" where
  "obstacles_segments [] = Inr []"
| "obstacles_segments (vs # rest) =
     (case obstacle_segments vs of
        Inl f \<Rightarrow> Inl f
      | Inr ls \<Rightarrow>
          (case obstacles_segments rest of
             Inl f \<Rightarrow> Inl f
           | Inr lss \<Rightarrow> Inr (ls # lss)))"

subsection \<open>Next_node_generator\<close>

text \<open>
  The integration loop \<^verbatim>\<open>for (size_t i = 0; i < arc / step_size_; ++i)\<close>. The counter is
  converted to \<^verbatim>\<open>double\<close> for the comparison. The three vectors grow by one entry per
  iteration.
\<close>

function Next_node_loop ::
  "collab \<Rightarrow> config \<Rightarrow> real \<Rightarrow> real \<Rightarrow> real \<Rightarrow> nat \<Rightarrow>
   real list \<times> real list \<times> real list \<Rightarrow> real \<times> real \<times> real \<Rightarrow>
   real list \<times> real list \<times> real list" where
  "Next_node_loop E C steering traveled_distance arc i
     (intermediate_x, intermediate_y, intermediate_phi) (last_x, last_y, last_phi) =
     (if real i < arc / step_size C then
        (let next_x = last_x + traveled_distance * cos last_phi;
             next_y = last_y + traveled_distance * sin last_phi;
             next_phi = NormalizeAngle E
               (last_phi + traveled_distance / wheel_base C * tan steering)
         in Next_node_loop E C steering traveled_distance arc (i + 1)
              (intermediate_x @ [next_x], intermediate_y @ [next_y],
               intermediate_phi @ [next_phi])
              (next_x, next_y, next_phi))
      else (intermediate_x, intermediate_y, intermediate_phi))"
  by pat_completeness auto
termination
proof (relation "measure (\<lambda>(E, C, st, d, arc, i, acc, l). nat \<lceil>arc / step_size C\<rceil> - i)")
  show "wf (measure (\<lambda>(E, C, st, d, arc, i, acc, l). nat \<lceil>arc / step_size C\<rceil> - i))"
    by simp
next
  fix E :: collab and C :: config and steering traveled_distance arc :: real and i :: nat
    and intermediate_x intermediate_y intermediate_phi :: "real list"
    and last_x last_y last_phi x xa xb :: real
  assume "real i < arc / step_size C"
  then have "i < nat \<lceil>arc / step_size C\<rceil>"
    by linarith
  then show "((E, C, steering, traveled_distance, arc, i + 1,
                (intermediate_x @ [x], intermediate_y @ [xa], intermediate_phi @ [xb]),
                x, xa, xb),
               (E, C, steering, traveled_distance, arc, i,
                (intermediate_x, intermediate_y, intermediate_phi), last_x, last_y, last_phi))
             \<in> measure (\<lambda>(E, C, st, d, arc, i, acc, l). nat \<lceil>arc / step_size C\<rceil> - i)"
    by simp
qed

declare Next_node_loop.simps [simp del]

definition primitive_steering :: "config \<Rightarrow> nat \<Rightarrow> real \<times> real" where
  \<comment> \<open>the steering angle and the signed distance per substep of the primitive \<open>next_node_index\<close>\<close>
  "primitive_steering C next_node_index =
     (if real next_node_index < real (next_node_num C) / 2 then
        (- max_steer_angle C
           + (2 * max_steer_angle C / (real (next_node_num C) / 2 - 1)) * real next_node_index,
         step_size C)
      else
        (let index = size_t_sub next_node_index (next_node_num C div 2)
         in (- max_steer_angle C
               + (2 * max_steer_angle C / (real (next_node_num C) / 2 - 1)) * real index,
             - step_size C)))"

definition primitive_poses ::
  "collab \<Rightarrow> config \<Rightarrow> Node3d \<Rightarrow> nat \<Rightarrow> real list \<times> real list \<times> real list" where
  \<comment> \<open>the three vectors when the integration loop has ended\<close>
  "primitive_poses E C current_node next_node_index =
     (let (steering, traveled_distance) = primitive_steering C next_node_index;
          arc = sqrt 2 * xy_grid_resolution C;
          last_x = GetX current_node;
          last_y = GetY current_node;
          last_phi = GetPhi current_node
      in Next_node_loop E C steering traveled_distance arc 0
           ([last_x], [last_y], [last_phi]) (last_x, last_y, last_phi))"

text \<open>
  With \<^verbatim>\<open>step_size_ == 0\<close> and a positive arc the bound of the loop is \<^verbatim>\<open>+inf\<close> and the
  loop never ends: the fault \<open>Diverges\<close>. (With a non-positive arc the bound is \<^verbatim>\<open>-inf\<close>
  or NaN and the loop is not entered, which is what \<open>arc / 0 = 0\<close> gives.) The result
  is \<open>None\<close> where the source returns \<^verbatim>\<open>nullptr\<close>.
\<close>

definition Next_node_generator ::
  "collab \<Rightarrow> config \<Rightarrow> XYbounds \<Rightarrow> Node3d \<Rightarrow> nat \<Rightarrow> fault + Node3d option" where
  "Next_node_generator E C B current_node next_node_index =
     (let (steering, traveled_distance) = primitive_steering C next_node_index;
          arc = sqrt 2 * xy_grid_resolution C
      in if step_size C = 0 \<and> 0 < arc then Inl Diverges
         else
           (let (intermediate_x, intermediate_y, intermediate_phi) =
                  primitive_poses E C current_node next_node_index
            in if last intermediate_x > XYbounds_1 B \<or> last intermediate_x < XYbounds_0 B \<or>
                  last intermediate_y > XYbounds_3 B \<or> last intermediate_y < XYbounds_2 B
               then Inr None
               else Inr (Some
                 (SetSteer steering
                   (SetDirec (0 < traveled_distance)
                     (SetPre current_node
                       (new_Node3d intermediate_x intermediate_y intermediate_phi)))))))"

subsection \<open>Node cost\<close>

definition TrajCost :: "config \<Rightarrow> Node3d \<Rightarrow> Node3d \<Rightarrow> real" where
  "TrajCost C current_node next_node =
     (let piecewise_cost = 0;
          piecewise_cost =
            (if GetDirec next_node
             then piecewise_cost
                    + real (size_t_sub (GetStepSize next_node) 1) * step_size C
                        * traj_forward_penalty C
             else piecewise_cost
                    + real (size_t_sub (GetStepSize next_node) 1) * step_size C
                        * traj_back_penalty C);
          piecewise_cost =
            (if GetDirec current_node \<noteq> GetDirec next_node
             then piecewise_cost + traj_gear_switch_penalty C
             else piecewise_cost);
          piecewise_cost = piecewise_cost + traj_steer_penalty C * \<bar>GetSteer next_node\<bar>;
          piecewise_cost = piecewise_cost
            + traj_steer_change_penalty C * \<bar>GetSteer next_node - GetSteer current_node\<bar>
      in piecewise_cost)"

definition HoloObstacleHeuristic :: "collab \<Rightarrow> Node3d \<Rightarrow> real" where
  "HoloObstacleHeuristic E next_node = CheckDpMap E (GetX next_node) (GetY next_node)"

definition CalculateNodeCost :: "collab \<Rightarrow> config \<Rightarrow> Node3d \<Rightarrow> Node3d \<Rightarrow> Node3d" where
  "CalculateNodeCost E C current_node next_node =
     (let next_node =
            SetTrajCost (GetTrajCost current_node + TrajCost C current_node next_node) next_node;
          optimal_path_cost = 0 + HoloObstacleHeuristic E next_node
      in SetHeuCost optimal_path_cost next_node)"

subsection \<open>GetResult: walking the predecessors\<close>

text \<open>
  The loop \<^verbatim>\<open>while (current_node->GetPreNode() != nullptr)\<close> of \<^verbatim>\<open>GetResult\<close>. \<open>None\<close> is
  the early \<^verbatim>\<open>return false\<close> on an empty sequence; otherwise the node without
  predecessor at which the loop stops and the three accumulated vectors.
\<close>

fun GetResult_loop ::
  "Node3d \<Rightarrow> real list \<Rightarrow> real list \<Rightarrow> real list \<Rightarrow>
   (Node3d \<times> real list \<times> real list \<times> real list) option" where
  "GetResult_loop (Node3d xs ys phis None d s tc hc) hybrid_a_x hybrid_a_y hybrid_a_phi =
     Some (Node3d xs ys phis None d s tc hc, hybrid_a_x, hybrid_a_y, hybrid_a_phi)"
| "GetResult_loop (Node3d xs ys phis (Some pre) d s tc hc) hybrid_a_x hybrid_a_y hybrid_a_phi =
     (if xs = [] \<or> ys = [] \<or> phis = [] then None
      else GetResult_loop pre
             (hybrid_a_x @ butlast (rev xs))
             (hybrid_a_y @ butlast (rev ys))
             (hybrid_a_phi @ butlast (rev phis)))"

definition GetResult_path :: "Node3d \<Rightarrow> (real list \<times> real list \<times> real list) option" where
  \<comment> \<open>the vectors assigned to \<^verbatim>\<open>result->x, result->y, result->phi\<close>\<close>
  "GetResult_path final_node =
     (case GetResult_loop final_node [] [] [] of
        None \<Rightarrow> None
      | Some (current_node, hybrid_a_x, hybrid_a_y, hybrid_a_phi) \<Rightarrow>
          Some (rev (hybrid_a_x @ [GetX current_node]),
                rev (hybrid_a_y @ [GetY current_node]),
                rev (hybrid_a_phi @ [GetPhi current_node])))"

subsection \<open>Speed profile by finite differences\<close>

definition discrete_v :: "config \<Rightarrow> HybridAStartResult \<Rightarrow> nat \<Rightarrow> real" where
  "discrete_v C r i =
     ((res_x r ! (i + 1) - res_x r ! i) / delta_t C) * cos (res_phi r ! i)
       + ((res_y r ! (i + 1) - res_y r ! i) / delta_t C) * sin (res_phi r ! i)"

function velocity_loop ::
  "config \<Rightarrow> nat \<Rightarrow> nat \<Rightarrow> HybridAStartResult \<Rightarrow> fault + HybridAStartResult" where
  "velocity_loop C x_size i r =
     (if i + 1 < x_size then
        (if i + 1 < length (res_x r) \<and> i + 1 < length (res_y r) \<and> i < length (res_phi r)
         then velocity_loop C x_size (i + 1) (r\<lparr>res_v := res_v r @ [discrete_v C r i]\<rparr>)
         else Inl OutOfRange)
      else Inr r)"
  by pat_completeness auto
termination
  by (relation "measure (\<lambda>(C, x_size, i, r). x_size - i)") auto

function acceleration_loop ::
  "config \<Rightarrow> nat \<Rightarrow> nat \<Rightarrow> HybridAStartResult \<Rightarrow> fault + HybridAStartResult" where
  "acceleration_loop C x_size i r =
     (if i + 1 < x_size then
        (if i + 1 < length (res_v r)
         then acceleration_loop C x_size (i + 1)
                (r\<lparr>res_a := res_a r @ [(res_v r ! (i + 1) - res_v r ! i) / delta_t C]\<rparr>)
         else Inl OutOfRange)
      else Inr r)"
  by pat_completeness auto
termination
  by (relation "measure (\<lambda>(C, x_size, i, r). x_size - i)") auto

definition discrete_steer :: "config \<Rightarrow> HybridAStartResult \<Rightarrow> nat \<Rightarrow> real" where
  "discrete_steer C r i =
     (let steer = (res_phi r ! (i + 1) - res_phi r ! i) * wheel_base C / step_size C
      in if res_v r ! i > 0 then arctan steer else arctan (- steer))"

function steer_loop ::
  "config \<Rightarrow> nat \<Rightarrow> nat \<Rightarrow> HybridAStartResult \<Rightarrow> fault + HybridAStartResult" where
  "steer_loop C x_size i r =
     (if i + 1 < x_size then
        (if i + 1 < length (res_phi r) \<and> i < length (res_v r)
         then steer_loop C x_size (i + 1) (r\<lparr>res_steer := res_steer r @ [discrete_steer C r i]\<rparr>)
         else Inl OutOfRange)
      else Inr r)"
  by pat_completeness auto
termination
  by (relation "measure (\<lambda>(C, x_size, i, r). x_size - i)") auto

declare velocity_loop.simps [simp del]
declare acceleration_loop.simps [simp del]
declare steer_loop.simps [simp del]

definition GenerateSpeedAcceleration ::
  "config \<Rightarrow> HybridAStartResult \<Rightarrow> fault + bool \<times> HybridAStartResult" where
  "GenerateSpeedAcceleration C result =
     (if length (res_x result) < 2 \<or> length (res_y result) < 2 \<or> length (res_phi result) < 2
      then Inr (False, result)
      else
        (let x_size = length (res_x result)
         in fbind (velocity_loop C x_size 0 result) (\<lambda>result.
            fbind (acceleration_loop C x_size 0 (result\<lparr>res_v := res_v result @ [0]\<rparr>)) (\<lambda>result.
            fbind (steer_loop C x_size 0 result) (\<lambda>result.
            Inr (True, result))))))"

subsection \<open>Speed profile by the piecewise-jerk QP\<close>

text \<open>
  \<^verbatim>\<open>std::min_element\<close> and \<^verbatim>\<open>std::max_element\<close> return an iterator: here the position of
  the first smallest (first largest) element, and the length of the vector (the end
  iterator) on an empty one.
\<close>

function min_element_loop :: "real list \<Rightarrow> nat \<Rightarrow> nat \<Rightarrow> nat" where
  "min_element_loop v smallest first =
     (if first < length v
      then min_element_loop v (if v ! first < v ! smallest then first else smallest) (first + 1)
      else smallest)"
  by pat_completeness auto
termination
  by (relation "measure (\<lambda>(v, smallest, first). length v - first)") auto

function max_element_loop :: "real list \<Rightarrow> nat \<Rightarrow> nat \<Rightarrow> nat" where
  "max_element_loop v largest first =
     (if first < length v
      then max_element_loop v (if v ! largest < v ! first then first else largest) (first + 1)
      else largest)"
  by pat_completeness auto
termination
  by (relation "measure (\<lambda>(v, largest, first). length v - first)") auto

declare min_element_loop.simps [simp del]
declare max_element_loop.simps [simp del]

definition min_element :: "real list \<Rightarrow> nat" where
  "min_element v = (if v = [] then 0 else min_element_loop v 0 1)"

definition max_element :: "real list \<Rightarrow> nat" where
  "max_element v = (if v = [] then 0 else max_element_loop v 0 1)"

text \<open>
  The first loop of \<^verbatim>\<open>GenerateSCurveSpeedAcceleration\<close>. The local vectors \<^verbatim>\<open>s_bounds\<close> and
  \<^verbatim>\<open>ds_bounds\<close> are filled and never read, and are left out.
\<close>

function s_reference_loop ::
  "config \<Rightarrow> nat \<Rightarrow> nat \<Rightarrow> real \<Rightarrow> HybridAStartResult \<Rightarrow> fault + HybridAStartResult" where
  "s_reference_loop C x_size i accumulated_s r =
     (if i + 1 < x_size then
        (if i + 1 < length (res_x r) \<and> i + 1 < length (res_y r) \<and> i < length (res_phi r)
         then
           (let accumulated_s = accumulated_s + discrete_v C r i * delta_t C
            in s_reference_loop C x_size (i + 1) accumulated_s
                 (r\<lparr>res_v := res_v r @ [discrete_v C r i],
                    res_accumulated_s := res_accumulated_s r @ [accumulated_s]\<rparr>))
         else Inl OutOfRange)
      else Inr r)"
  by pat_completeness auto
termination
  by (relation "measure (\<lambda>(C, x_size, i, s, r). x_size - i)") auto

declare s_reference_loop.simps [simp del]

definition s_reference :: "config \<Rightarrow> HybridAStartResult \<Rightarrow> fault + HybridAStartResult" where
  \<comment> \<open>from \<^verbatim>\<open>// Setup for initial point.\<close> to \<^verbatim>\<open>result->v[x_size - 1] = 0.0;\<close>\<close>
  "s_reference C result =
     (let x_size = length (res_x result);
          result = result\<lparr>res_accumulated_s := res_accumulated_s result @ [0],
                          res_v := res_v result @ [0]\<rparr>
      in fbind (s_reference_loop C x_size 0 0 result) (\<lambda>result.
           if size_t_sub x_size 1 < length (res_v result)
           then Inr (result\<lparr>res_v := (res_v result)[size_t_sub x_size 1 := 0]\<rparr>)
           else Inl OutOfRange))"

text \<open>
  The bounds handed to the QP. Lines 403 to 409 dereference the iterator and then
  subtract or add 10. Line 411 is
  \<^verbatim>\<open>*(std::min_element(std::begin(result->v), std::end(result->v)) - 10)\<close>:
  the iterator is moved back by 10 positions and then dereferenced.
\<close>

definition first_order_lower :: "real list \<Rightarrow> fault + real" where
  "first_order_lower v = iter_at v (int (min_element v) - 10)"

definition first_order_upper :: "real list \<Rightarrow> fault + real" where
  "first_order_upper v = fbind (iter_at v (int (max_element v))) (\<lambda>m. Inr (m + 10))"

definition zero_order_lower :: "real list \<Rightarrow> fault + real" where
  "zero_order_lower s = fbind (iter_at s (int (min_element s))) (\<lambda>m. Inr (m - 10))"

definition zero_order_upper :: "real list \<Rightarrow> fault + real" where
  "zero_order_upper s = fbind (iter_at s (int (max_element s))) (\<lambda>m. Inr (m + 10))"

definition s_curve_problem ::
  "config \<Rightarrow> HybridAStartResult \<Rightarrow> fault + PathTimeQpProblem" where
  "s_curve_problem C result =
     (let x_size = length (res_x result);
          w = [s_weight C, velocity_weight C, acc_weight C, jerk_weight C, ref_weight C]
      in fbind (vec_at (res_accumulated_s result) 0) (\<lambda>s0.
         fbind (vec_at (res_v result) 0) (\<lambda>v0.
         fbind (vec_at (res_v result) 1) (\<lambda>v1.
         fbind (vec_at (res_accumulated_s result) (size_t_sub x_size 1)) (\<lambda>s_end.
         fbind (zero_order_lower (res_accumulated_s result)) (\<lambda>s_lower.
         fbind (zero_order_upper (res_accumulated_s result)) (\<lambda>s_upper.
         fbind (first_order_lower (res_v result)) (\<lambda>ds_lower.
         fbind (first_order_upper (res_v result)) (\<lambda>ds_upper.
         Inr \<lparr>qp_num_var = x_size, qp_delta_t = delta_t C, qp_w = w,
              qp_init_s = (s0, v0, (v1 - v0) / delta_t C),
              qp_end_s = (s_end, 0, 0),
              ZeroOrderBounds = (s_lower, s_upper),
              FirstOrderBounds = (ds_lower, ds_upper),
              SecondOrderBounds = (- 4.4, 10.0),
              ThirdOrderBound = FLAGS_longitudinal_jerk_bound C,
              DesireDerivative = 0,
              ZeroOrderReference = res_accumulated_s result\<rparr>)))))))))"

definition GenerateSCurveSpeedAcceleration ::
  "collab \<Rightarrow> config \<Rightarrow> HybridAStartResult \<Rightarrow> fault + bool \<times> HybridAStartResult" where
  "GenerateSCurveSpeedAcceleration E C result =
     (if length (res_x result) < 2 \<or> length (res_y result) < 2 \<or> length (res_phi result) < 2
      then Inr (False, result)
      else
        (let x_size = length (res_x result)
         in fbind (s_reference C result) (\<lambda>result.
            fbind (s_curve_problem C result) (\<lambda>path_time_qp.
            (case Optimize E path_time_qp of
               None \<Rightarrow> Inr (False, result)
             | Some (qp_x, qp_dx, qp_ddx) \<Rightarrow>
                 if qp_ddx = [] then Inl OutOfRange
                 else
                   (let result = result\<lparr>res_accumulated_s := qp_x, res_v := qp_dx,
                                         res_a := butlast qp_ddx\<rparr>
                    in fbind (steer_loop C x_size 0 result) (\<lambda>result.
                       Inr (True, result))))))))"

subsection \<open>GetResult\<close>

definition GetResult ::
  "collab \<Rightarrow> config \<Rightarrow> Node3d \<Rightarrow> HybridAStartResult \<Rightarrow> fault + bool \<times> HybridAStartResult" where
  "GetResult E C final_node result =
     (case GetResult_path final_node of
        None \<Rightarrow> Inr (False, result)
      | Some (hybrid_a_x, hybrid_a_y, hybrid_a_phi) \<Rightarrow>
          (let result = result\<lparr>res_x := hybrid_a_x, res_y := hybrid_a_y, res_phi := hybrid_a_phi\<rparr>
           in fbind (if FLAGS_use_s_curve_speed_smooth C
                     then GenerateSCurveSpeedAcceleration E C result
                     else GenerateSpeedAcceleration C result) (\<lambda>(ok, result).
                if \<not> ok then Inr (False, result)
                else if length (res_x result) \<noteq> length (res_y result) \<or>
                        length (res_x result) \<noteq> length (res_v result) \<or>
                        length (res_x result) \<noteq> length (res_phi result)
                  then Inr (False, result)
                else if length (res_a result) \<noteq> length (res_steer result) \<or>
                        size_t_sub (length (res_x result)) (length (res_a result)) \<noteq> 1
                  then Inr (False, result)
                else Inr (True, result))))"

subsection \<open>Plan: containers\<close>

text \<open>
  Modelled from the spec: \<^verbatim>\<open>open_pq_\<close> is a \<^verbatim>\<open>std::priority_queue\<close> whose comparator is
  declared in hybrid_a_star.h, which is not among the sources; the spec says it is a
  min-priority queue keyed by total cost, insertion order breaking ties. The queue is
  the list of its entries in insertion order; \<open>pq_top\<close> is the earliest entry of least
  cost. No property below depends on which entry is popped.
\<close>

text \<open>
  \<^verbatim>\<open>open_set_\<close> and \<^verbatim>\<open>close_set_\<close> are maps from the index string to the node. A key that
  is absent maps to \<open>None\<close>; \<^verbatim>\<open>insert\<close> and \<^verbatim>\<open>emplace\<close> keep the old entry when the key is
  present.

  \<open>pushed_log\<close> and \<open>popped_log\<close> are history variables. They are not in the source:
  the model appends to \<open>pushed_log\<close> exactly where the source calls \<^verbatim>\<open>open_pq_.push\<close> or
  \<^verbatim>\<open>open_pq_.emplace\<close>, and to \<open>popped_log\<close> exactly where it calls \<^verbatim>\<open>open_pq_.pop\<close>; no
  function of the model reads them.
\<close>

record HybridAStar =
  open_set :: "string \<rightharpoonup> Node3d"
  close_set :: "string \<rightharpoonup> Node3d"
  open_pq :: "(string \<times> real) list"
  final_node :: "Node3d option"
  obstacles_linesegments_vec :: "LineSegment2d list list"
  XYbounds_m :: XYbounds
  start_node :: Node3d
  end_node :: Node3d
  pushed_log :: "string list"
  popped_log :: "string list"

definition map_insert :: "('k \<rightharpoonup> 'v) \<Rightarrow> 'k \<Rightarrow> 'v \<Rightarrow> ('k \<rightharpoonup> 'v)" where
  "map_insert m k v = (if m k = None then m(k \<mapsto> v) else m)"

fun pq_min :: "string \<times> real \<Rightarrow> (string \<times> real) list \<Rightarrow> string \<times> real" where
  "pq_min best [] = best"
| "pq_min best (e # es) = pq_min (if snd e < snd best then e else best) es"

definition pq_top :: "(string \<times> real) list \<Rightarrow> fault + string \<times> real" where
  "pq_top q = (case q of [] \<Rightarrow> Inl OutOfRange | e # es \<Rightarrow> Inr (pq_min e es))"

definition pq_pop :: "(string \<times> real) list \<Rightarrow> (string \<times> real) list" where
  "pq_pop q = (case q of [] \<Rightarrow> [] | e # es \<Rightarrow> remove1 (pq_min e es) q)"

subsection \<open>Plan: analytic expansion\<close>

text \<open>
  The constructor of \<^verbatim>\<open>Node3d\<close> takes the representative pose from the last entry of
  each vector; on an empty vector that read is outside the vector.
\<close>

definition checked_Node3d :: "real list \<Rightarrow> real list \<Rightarrow> real list \<Rightarrow> fault + Node3d" where
  "checked_Node3d xs ys phis =
     (if xs = [] \<or> ys = [] \<or> phis = [] then Inl OutOfRange else Inr (new_Node3d xs ys phis))"

definition RSPCheck ::
  "collab \<Rightarrow> HybridAStar \<Rightarrow> real list \<times> real list \<times> real list \<Rightarrow> fault + bool" where
  "RSPCheck E S reeds_shepp_to_end =
     (case reeds_shepp_to_end of (rx, ry, rphi) \<Rightarrow>
        fbind (checked_Node3d rx ry rphi) (\<lambda>node.
          ValidityCheck E (obstacles_linesegments_vec S) (XYbounds_m S) node))"

definition LoadRSPinCS ::
  "collab \<Rightarrow> HybridAStar \<Rightarrow> real list \<times> real list \<times> real list \<Rightarrow> Node3d \<Rightarrow>
   fault + Node3d \<times> HybridAStar" where
  "LoadRSPinCS E S reeds_shepp_to_end current_node =
     (case reeds_shepp_to_end of (rx, ry, rphi) \<Rightarrow>
        fbind (checked_Node3d rx ry rphi) (\<lambda>end_node.
          let end_node = SetPre current_node end_node
          in Inr (end_node,
                  S\<lparr>close_set := map_insert (close_set S) (GetIndex E end_node) end_node\<rparr>)))"

definition AnalyticExpansion ::
  "collab \<Rightarrow> HybridAStar \<Rightarrow> Node3d \<Rightarrow> fault + bool \<times> HybridAStar" where
  "AnalyticExpansion E S current_node =
     (case ShortestRSP E current_node (end_node S) of
        None \<Rightarrow> Inr (False, S)
      | Some reeds_shepp_to_check \<Rightarrow>
          fbind (RSPCheck E S reeds_shepp_to_check) (\<lambda>ok.
            if \<not> ok then Inr (False, S)
            else fbind (LoadRSPinCS E S reeds_shepp_to_check current_node) (\<lambda>(n, S).
                   Inr (True, S\<lparr>final_node := Some n\<rparr>))))"

subsection \<open>Plan: the search loop\<close>

definition expand_one ::
  "collab \<Rightarrow> config \<Rightarrow> Node3d \<Rightarrow> nat \<Rightarrow> HybridAStar \<Rightarrow> fault + HybridAStar" where
  \<comment> \<open>the body of \<^verbatim>\<open>for (size_t i = 0; i < next_node_num_; ++i)\<close>\<close>
  "expand_one E C current_node i S =
     fbind (Next_node_generator E C (XYbounds_m S) current_node i) (\<lambda>next.
       case next of
         None \<Rightarrow> Inr S
       | Some next_node \<Rightarrow>
           if close_set S (GetIndex E next_node) \<noteq> None then Inr S
           else fbind (ValidityCheck E (obstacles_linesegments_vec S) (XYbounds_m S) next_node)
             (\<lambda>ok.
               if \<not> ok then Inr S
               else if open_set S (GetIndex E next_node) = None then
                 (let next_node = CalculateNodeCost E C current_node next_node
                  in Inr (S\<lparr>open_set :=
                              map_insert (open_set S) (GetIndex E next_node) next_node,
                            open_pq := open_pq S @ [(GetIndex E next_node, GetCost next_node)],
                            pushed_log := pushed_log S @ [GetIndex E next_node]\<rparr>))
               else Inr S))"

function expand_loop ::
  "collab \<Rightarrow> config \<Rightarrow> Node3d \<Rightarrow> nat \<Rightarrow> HybridAStar \<Rightarrow> fault + HybridAStar" where
  "expand_loop E C current_node i S =
     (if i < next_node_num C then
        (case expand_one E C current_node i S of
           Inl f \<Rightarrow> Inl f
         | Inr S' \<Rightarrow> expand_loop E C current_node (i + 1) S')
      else Inr S)"
  by pat_completeness auto
termination
  by (relation "measure (\<lambda>(E, C, n, i, S). next_node_num C - i)") auto

declare expand_loop.simps [simp del]

text \<open>
  One iteration of \<^verbatim>\<open>while (!open_pq_.empty())\<close>. The result carries \<open>True\<close> when the
  iteration leaves the loop by \<^verbatim>\<open>break\<close>. \<^verbatim>\<open>open_set_[current_id]\<close> on an absent key yields a
  null pointer, which the iteration then dereferences.
\<close>

definition Plan_iter :: "collab \<Rightarrow> config \<Rightarrow> HybridAStar \<Rightarrow> fault + bool \<times> HybridAStar" where
  "Plan_iter E C S =
     fbind (pq_top (open_pq S)) (\<lambda>entry.
       let current_id = fst entry;
           S = S\<lparr>open_pq := pq_pop (open_pq S), popped_log := popped_log S @ [current_id]\<rparr>
       in case open_set S current_id of
            None \<Rightarrow> Inl NullDeref
          | Some current_node \<Rightarrow>
              fbind (AnalyticExpansion E S current_node) (\<lambda>(found, S).
                if found then Inr (True, S)
                else
                  (let S = S\<lparr>close_set :=
                               map_insert (close_set S) (GetIndex E current_node) current_node\<rparr>
                   in fbind (expand_loop E C current_node 0 S) (\<lambda>S. Inr (False, S)))))"

text \<open>
  The loop, with fuel: \<open>None\<close> when the fuel runs out before the queue is empty or the
  loop is left.
\<close>

fun Plan_loop :: "nat \<Rightarrow> collab \<Rightarrow> config \<Rightarrow> HybridAStar \<Rightarrow> fault + HybridAStar option" where
  "Plan_loop 0 E C S = Inr None"
| "Plan_loop (Suc fuel) E C S =
     (if open_pq S = [] then Inr (Some S)
      else (case Plan_iter E C S of
              Inl f \<Rightarrow> Inl f
            | Inr (left, S') \<Rightarrow> if left then Inr (Some S') else Plan_loop fuel E C S'))"

text \<open>Plan up to the loop: \<open>None\<close> is the early \<^verbatim>\<open>return false\<close>.\<close>

definition Plan_init ::
  "collab \<Rightarrow> real \<Rightarrow> real \<Rightarrow> real \<Rightarrow> real \<Rightarrow> real \<Rightarrow> real \<Rightarrow> XYbounds \<Rightarrow> Vec2d list list \<Rightarrow>
   fault + HybridAStar option" where
  "Plan_init E sx sy sphi ex ey ephi B obstacles_vertices_vec =
     fbind (obstacles_segments obstacles_vertices_vec) (\<lambda>segs.
       let s_node = new_Node3d [sx] [sy] [sphi];
           e_node = new_Node3d [ex] [ey] [ephi]
       in fbind (ValidityCheck E segs B s_node) (\<lambda>ok.
            if \<not> ok then Inr None
            else fbind (ValidityCheck E segs B e_node) (\<lambda>ok.
              if \<not> ok then Inr None
              else Inr (Some
                \<lparr>open_set = map_insert Map.empty (GetIndex E s_node) s_node,
                 close_set = Map.empty,
                 open_pq = [(GetIndex E s_node, GetCost s_node)],
                 final_node = None,
                 obstacles_linesegments_vec = segs,
                 XYbounds_m = B,
                 start_node = s_node,
                 end_node = e_node,
                 pushed_log = [GetIndex E s_node],
                 popped_log = []\<rparr>))))"

definition Plan ::
  "nat \<Rightarrow> collab \<Rightarrow> config \<Rightarrow> real \<Rightarrow> real \<Rightarrow> real \<Rightarrow> real \<Rightarrow> real \<Rightarrow> real \<Rightarrow> XYbounds \<Rightarrow>
   Vec2d list list \<Rightarrow> HybridAStartResult \<Rightarrow> fault + (bool \<times> HybridAStartResult) option" where
  \<comment> \<open>\<open>Inr None\<close>: the search loop did not end within the fuel\<close>
  "Plan fuel E C sx sy sphi ex ey ephi B obstacles_vertices_vec result =
     fbind (Plan_init E sx sy sphi ex ey ephi B obstacles_vertices_vec) (\<lambda>init.
       case init of
         None \<Rightarrow> Inr (Some (False, result))
       | Some S \<Rightarrow>
           fbind (Plan_loop fuel E C S) (\<lambda>r.
             case r of
               None \<Rightarrow> Inr None
             | Some S \<Rightarrow>
                 (case final_node S of
                    None \<Rightarrow> Inr (Some (False, result))
                  | Some n \<Rightarrow> fbind (GetResult E C n result) (\<lambda>res. Inr (Some res)))))"

text \<open>
  The states of one execution of the loop: \<open>Plan_reach E C S0 (left, S)\<close> says that the
  execution that enters the loop in state \<open>S0\<close> is in state \<open>S\<close> after some number of
  iterations, and \<open>left\<close> that the last of them left the loop by \<^verbatim>\<open>break\<close>.
\<close>

inductive Plan_reach :: "collab \<Rightarrow> config \<Rightarrow> HybridAStar \<Rightarrow> bool \<times> HybridAStar \<Rightarrow> bool"
  for E :: collab and C :: config and S0 :: HybridAStar where
  enter: "Plan_reach E C S0 (False, S0)"
| iterate: "Plan_reach E C S0 (False, S) \<Longrightarrow> open_pq S \<noteq> [] \<Longrightarrow>
            Plan_iter E C S = Inr (left, S') \<Longrightarrow> Plan_reach E C S0 (left, S')"

section \<open>Notions used to state the properties\<close>

subsection \<open>Poses of a node and their validity\<close>

text \<open>
  A pose is valid when it lies within the bounds and the footprint of the vehicle at
  the pose overlaps no obstacle segment. \<open>poses\<close> lists the poses of a node in the order
  of the traversal; \<open>checked_poses\<close> are all of them for a node of one pose and all but
  the first otherwise.
\<close>

definition pose_valid ::
  "collab \<Rightarrow> LineSegment2d list list \<Rightarrow> XYbounds \<Rightarrow> real \<times> real \<times> real \<Rightarrow> bool" where
  "pose_valid E obs B p =
     (case p of (x, y, phi) \<Rightarrow>
        XYbounds_0 B \<le> x \<and> x \<le> XYbounds_1 B \<and> XYbounds_2 B \<le> y \<and> y \<le> XYbounds_3 B \<and>
        \<not> list_ex (\<lambda>ls. list_ex (\<lambda>l. HasOverlap E x y phi l) ls) obs)"

definition poses :: "Node3d \<Rightarrow> (real \<times> real \<times> real) list" where
  "poses n = zip (GetXs n) (zip (GetYs n) (GetPhis n))"

definition checked_poses :: "Node3d \<Rightarrow> (real \<times> real \<times> real) list" where
  "checked_poses n = (if GetStepSize n = 1 then poses n else tl (poses n))"

subsection \<open>Invariants of the search loop\<close>

text \<open>
  \<open>queue_inv\<close>: the indices pushed so far are the keys of the open set, no index was
  pushed twice, every pushed index is either still in the queue or was popped, never
  both and never twice, and every node of the open set is stored under its own index.
  \<open>closed_inv\<close>: the keys of the closed set were popped.
\<close>

definition queue_inv :: "collab \<Rightarrow> HybridAStar \<Rightarrow> bool" where
  "queue_inv E S \<longleftrightarrow>
     set (pushed_log S) = dom (open_set S) \<and>
     distinct (pushed_log S) \<and>
     distinct (map fst (open_pq S) @ popped_log S) \<and>
     set (map fst (open_pq S)) \<union> set (popped_log S) = set (pushed_log S) \<and>
     (\<forall>k n. open_set S k = Some n \<longrightarrow> GetIndex E n = k)"

definition closed_inv :: "HybridAStar \<Rightarrow> bool" where
  "closed_inv S \<longleftrightarrow> dom (close_set S) \<subseteq> set (popped_log S)"

text \<open>
  The loop body as the specification words it: closed-set membership is consulted
  after the pop and before the expansion, and an entry whose index is in the closed
  set is skipped. The source has no such test; \<open>Plan_iter_checked\<close> is \<open>Plan_iter\<close> with
  the test added, to be compared with it.
\<close>

definition Plan_iter_checked ::
  "collab \<Rightarrow> config \<Rightarrow> HybridAStar \<Rightarrow> fault + bool \<times> HybridAStar" where
  "Plan_iter_checked E C S =
     fbind (pq_top (open_pq S)) (\<lambda>entry.
       if close_set S (fst entry) \<noteq> None
       then Inr (False, S\<lparr>open_pq := pq_pop (open_pq S),
                           popped_log := popped_log S @ [fst entry]\<rparr>)
       else Plan_iter E C S)"

subsection \<open>The chain of predecessors\<close>

text \<open>
  \<open>ancestry n\<close> lists the nodes from the one without predecessor up to \<open>n\<close>. A chain is
  \<open>linked\<close> in one coordinate when every node has at least one entry and the first entry
  of every node but the first one is the last entry of its predecessor. \<open>joined\<close> is the
  concatenation of the sequences along the chain in which every shared entry occurs
  once.
\<close>

fun ancestry :: "Node3d \<Rightarrow> Node3d list" where
  "ancestry (Node3d xs ys phis None d s tc hc) = [Node3d xs ys phis None d s tc hc]"
| "ancestry (Node3d xs ys phis (Some pre) d s tc hc) =
     ancestry pre @ [Node3d xs ys phis (Some pre) d s tc hc]"

fun linked :: "(Node3d \<Rightarrow> real list) \<Rightarrow> Node3d \<Rightarrow> bool" where
  "linked sel (Node3d xs ys phis None d s tc hc) =
     (sel (Node3d xs ys phis None d s tc hc) \<noteq> [])"
| "linked sel (Node3d xs ys phis (Some pre) d s tc hc) =
     (sel (Node3d xs ys phis (Some pre) d s tc hc) \<noteq> [] \<and>
      hd (sel (Node3d xs ys phis (Some pre) d s tc hc)) = last (sel pre) \<and>
      linked sel pre)"

definition chain_ok :: "Node3d \<Rightarrow> bool" where
  "chain_ok n \<longleftrightarrow> linked GetXs n \<and> linked GetYs n \<and> linked GetPhis n"

definition joined :: "(Node3d \<Rightarrow> real list) \<Rightarrow> Node3d \<Rightarrow> real list" where
  "joined sel n =
     last (sel (hd (ancestry n))) # concat (map (\<lambda>m. tl (sel m)) (tl (ancestry n)))"

text \<open>
  The Reeds-Shepp generator is asked for a curve from the current node to the goal;
  \<open>rsp_starts_at_current\<close> says that the curves it returns start at the pose of the
  current node. \<open>chain_inv\<close> says that every node of the open set, and the final node
  once there is one, has a linked chain of predecessors that starts at the start node.
\<close>

definition rsp_starts_at_current :: "collab \<Rightarrow> bool" where
  "rsp_starts_at_current E \<longleftrightarrow>
     (\<forall>cur e rx ry rphi. ShortestRSP E cur e = Some (rx, ry, rphi) \<longrightarrow>
        hd rx = GetX cur \<and> hd ry = GetY cur \<and> hd rphi = GetPhi cur)"

definition chain_inv :: "HybridAStar \<Rightarrow> bool" where
  "chain_inv S \<longleftrightarrow>
     (\<forall>k n. open_set S k = Some n \<longrightarrow> chain_ok n \<and> hd (ancestry n) = start_node S) \<and>
     (\<forall>n. final_node S = Some n \<longrightarrow> chain_ok n \<and> hd (ancestry n) = start_node S)"

subsection \<open>The bicycle model\<close>

text \<open>
  \<open>trajectory k f p\<close> is \<open>p\<close> followed by \<open>k\<close> applications of \<open>f\<close>; \<open>substeps\<close> is the
  least number of substeps of length \<open>step_size\<close> that cover the arc
  \<open>sqrt 2 * xy_grid_resolution\<close>.
\<close>

definition bicycle_step ::
  "collab \<Rightarrow> config \<Rightarrow> real \<Rightarrow> real \<Rightarrow> real \<times> real \<times> real \<Rightarrow> real \<times> real \<times> real" where
  "bicycle_step E C steer d p =
     (case p of (x, y, phi) \<Rightarrow>
        (x + d * cos phi, y + d * sin phi,
         NormalizeAngle E (phi + d * tan steer / wheel_base C)))"

fun trajectory :: "nat \<Rightarrow> ('a \<Rightarrow> 'a) \<Rightarrow> 'a \<Rightarrow> 'a list" where
  "trajectory 0 f p = [p]"
| "trajectory (Suc k) f p = p # trajectory k f (f p)"

definition substeps :: "config \<Rightarrow> nat" where
  "substeps C = nat \<lceil>sqrt 2 * xy_grid_resolution C / step_size C\<rceil>"

subsection \<open>Example inputs\<close>

text \<open>
  A square workspace, a configuration with four primitives that all drive straight
  (\<open>max_steer_angle = 0\<close>), collaborators for free space (\<open>free_collab\<close>: nothing overlaps,
  no Reeds-Shepp curve is found) and the same with a Reeds-Shepp generator that joins
  the two poses directly (\<open>direct_collab\<close>). The grid has two cells, split at \<open>x = 1\<close>.
\<close>

definition ex_bounds :: XYbounds where
  "ex_bounds = \<lparr>XYbounds_0 = - 10, XYbounds_1 = 10, XYbounds_2 = - 10, XYbounds_3 = 10\<rparr>"

definition ex_config :: config where
  "ex_config = \<lparr>next_node_num = 4, max_steer_angle = 0, step_size = 1,
     xy_grid_resolution = 1, delta_t = 1, traj_forward_penalty = 1, traj_back_penalty = 1,
     traj_gear_switch_penalty = 1, traj_steer_penalty = 1, traj_steer_change_penalty = 1,
     wheel_base = 1, s_weight = 1, velocity_weight = 1, acc_weight = 1, jerk_weight = 1,
     ref_weight = 1, FLAGS_use_s_curve_speed_smooth = False,
     FLAGS_longitudinal_jerk_bound = 1\<rparr>"

definition free_collab :: collab where
  "free_collab = \<lparr>HasOverlap = (\<lambda>x y phi l. False), NormalizeAngle = (\<lambda>a. a),
     ShortestRSP = (\<lambda>cur e. None), CheckDpMap = (\<lambda>x y. 0), Optimize = (\<lambda>qp. None),
     GridIndex = (\<lambda>x y phi. if x < 1 then ''near'' else ''far'')\<rparr>"

definition direct_collab :: collab where
  "direct_collab = free_collab\<lparr>ShortestRSP :=
     (\<lambda>cur e. Some ([GetX cur, GetX e], [GetY cur, GetY e], [GetPhi cur, GetPhi e]))\<rparr>"

definition ex_result :: HybridAStartResult where
  "ex_result = \<lparr>res_x = [], res_y = [], res_phi = [], res_v = [], res_a = [], res_steer = [],
     res_accumulated_s = []\<rparr>"

definition ex_path :: HybridAStartResult where
  "ex_path = ex_result\<lparr>res_x := [0, 1, 2], res_y := [0, 0, 0], res_phi := [0, 0, 0]\<rparr>"

definition ex_start :: Node3d where
  "ex_start = new_Node3d [0] [0] [0]"

definition ex_succ :: Node3d where
  "ex_succ = Node3d [0, 1, 2] [0, 0, 0] [0, 0, 0] (Some ex_start) True 0 0 0"

text \<open>
  The states of one iteration of the search from \<open>(0, 0, 0)\<close> to \<open>(5, 0, 0)\<close> in free
  space: \<open>ex_S0\<close> on entry to the loop, \<open>ex_mid\<close> when the start node has been popped and
  closed, \<open>ex_S1\<close> when its four primitives have been tried. \<open>ex_stale\<close> is \<open>ex_S0\<close> with
  the queued node already in the closed set. \<open>far_start\<close> is a start pose outside
  \<open>ex_bounds\<close>, \<open>far_final\<close> the node of the curve that joins it to the goal.
  \<open>short_path\<close> is a path of two poses.
\<close>

definition ex_pushed :: Node3d where
  "ex_pushed = Node3d [0, 1, 2] [0, 0, 0] [0, 0, 0] (Some ex_start) True 0 2 0"

definition ex_back :: Node3d where
  "ex_back = Node3d [0, - 1, - 2] [0, 0, 0] [0, 0, 0] (Some ex_start) False 0 0 0"

definition ex_S0 :: HybridAStar where
  "ex_S0 = \<lparr>open_set = [''near'' \<mapsto> ex_start], close_set = Map.empty,
            open_pq = [(''near'', 0)], final_node = None,
            obstacles_linesegments_vec = [], XYbounds_m = ex_bounds,
            start_node = ex_start, end_node = new_Node3d [5] [0] [0],
            pushed_log = [''near''], popped_log = []\<rparr>"

definition ex_stale :: HybridAStar where
  "ex_stale = ex_S0\<lparr>close_set := [''near'' \<mapsto> ex_start]\<rparr>"

definition ex_S1 :: HybridAStar where
  "ex_S1 = \<lparr>open_set = [''near'' \<mapsto> ex_start, ''far'' \<mapsto> ex_pushed],
            close_set = [''near'' \<mapsto> ex_start],
            open_pq = [(''far'', 2)], final_node = None,
            obstacles_linesegments_vec = [], XYbounds_m = ex_bounds,
            start_node = ex_start, end_node = new_Node3d [5] [0] [0],
            pushed_log = [''near'', ''far''], popped_log = [''near'']\<rparr>"

definition ex_mid :: HybridAStar where
  "ex_mid = ex_S0\<lparr>open_pq := [], popped_log := [''near''],
                  close_set := [''near'' \<mapsto> ex_start]\<rparr>"

definition far_start :: Node3d where
  "far_start = new_Node3d [100] [0] [0]"

definition far_final :: Node3d where
  "far_final = Node3d [100, 0] [0, 0] [0, 0] (Some far_start) True 0 0 0"

text \<open>
  \<open>reused_path\<close> is the path \<open>ex_path\<close> in a result object that still holds one velocity
  of an earlier call.
\<close>

definition reused_path :: HybridAStartResult where
  "reused_path = ex_path\<lparr>res_v := [9]\<rparr>"

definition short_path :: HybridAStartResult where
  "short_path = ex_result\<lparr>res_x := [0, 1], res_y := [0, 0], res_phi := [0, 0]\<rparr>"

section \<open>ValidityCheck\<close>

lemma ValidityCheck_loop_all:
  assumes "l \<le> length tx" "length ty = length tx" "length tphi = length tx"
  shows "ValidityCheck_loop E obs B tx ty tphi l i =
           Inr (list_all (pose_valid E obs B) (drop i (take l (zip tx (zip ty tphi)))))"
  using assms
proof (induction "l - i" arbitrary: i)
  case 0
  then have "\<not> i < l" by simp
  then show ?case
    by (subst ValidityCheck_loop.simps) simp
next
  case (Suc k)
  then have il: "i < l" by simp
  let ?zs = "take l (zip tx (zip ty tphi))"
  have len: "length ?zs = l" using Suc.prems by simp
  have nth: "?zs ! i = (tx ! i, ty ! i, tphi ! i)"
    using il Suc.prems by simp
  have "i < length ?zs" using il len by simp
  from Cons_nth_drop_Suc [OF this]
  have split: "drop i ?zs = (tx ! i, ty ! i, tphi ! i) # drop (i + 1) ?zs"
    by (simp only: nth Suc_eq_plus1)
  have IH: "ValidityCheck_loop E obs B tx ty tphi l (i + 1) =
              Inr (list_all (pose_valid E obs B) (drop (i + 1) ?zs))"
    using Suc.hyps(1) [of "i + 1"] Suc.hyps(2) Suc.prems by simp
  show ?case
    apply (subst ValidityCheck_loop.simps)
    apply (subst split)
    using il Suc.prems IH
    apply (auto simp: pose_valid_def)
    done
qed

text \<open>
  C4, as the code has it. With at least one obstacle in the list, \<open>ValidityCheck\<close> on a
  node of equally long, non-empty sequences returns true iff every checked pose is
  valid: the single pose of a node with \<open>step_size = 1\<close>, and for a longer node every
  pose but the first of the traversal (the pose shared with the predecessor); the
  final pose is checked.
\<close>

theorem ValidityCheck_checks:
  assumes "obs \<noteq> []" "GetStepSize n \<noteq> 0"
    and "length (GetYs n) = length (GetXs n)" "length (GetPhis n) = length (GetXs n)"
  shows "ValidityCheck E obs B n = Inr (list_all (pose_valid E obs B) (checked_poses n))"
proof -
  let ?N = "length (GetXs n)"
  let ?l = "if ?N = 1 then 1 else size_t_sub ?N 1"
  have N: "1 \<le> ?N" using assms(2) by (simp add: GetStepSize_def Suc_le_eq)
  have l: "?l = (if ?N = 1 then 1 else ?N - 1)" using N by (simp add: size_t_sub_def)
  have le: "?l \<le> length (rev (GetXs n))" using N by (simp add: size_t_sub_def)
  have zr: "zip (rev (GetXs n)) (zip (rev (GetYs n)) (rev (GetPhis n))) = rev (poses n)"
    using assms(3,4) by (simp add: poses_def zip_rev)
  have tk: "take ?l (rev (poses n)) = rev (checked_poses n)"
  proof (cases "?N = 1")
    case True
    then have "length (poses n) = 1" using assms(3,4) by (simp add: poses_def)
    then show ?thesis using True by (simp add: checked_poses_def GetStepSize_def)
  next
    case False
    have "length (poses n) = ?N" using assms(3,4) by (simp add: poses_def)
    moreover have "?N - (?N - 1) = 1" using N by simp
    ultimately have "take (?N - 1) (rev (poses n)) = rev (drop 1 (poses n))"
      by (simp only: take_rev)
    then show ?thesis using False N
      by (simp add: checked_poses_def GetStepSize_def size_t_sub_def drop_Suc)
  qed
  have "ValidityCheck E obs B n =
          ValidityCheck_loop E obs B (rev (GetXs n)) (rev (GetYs n)) (rev (GetPhis n)) ?l 0"
    using assms(1) by (simp add: ValidityCheck_def Let_def GetStepSize_def)
  also have "\<dots> = Inr (list_all (pose_valid E obs B)
       (drop 0 (take ?l (zip (rev (GetXs n)) (zip (rev (GetYs n)) (rev (GetPhis n)))))))"
    by (rule ValidityCheck_loop_all) (use le assms(3,4) in simp_all)
  also have "\<dots> = Inr (list_all (pose_valid E obs B) (checked_poses n))"
    by (simp only: zr tk drop_0 list_all_rev)
  finally show ?thesis .
qed

text \<open>
  An instance of C4 as the code has it: the successor \<open>ex_succ\<close> of three poses, checked
  against one obstacle that has no segment.
\<close>

theorem ValidityCheck_checks_witness:
  "[[]] \<noteq> ([] :: LineSegment2d list list) \<and> GetStepSize ex_succ \<noteq> 0 \<and>
   length (GetYs ex_succ) = length (GetXs ex_succ) \<and>
   length (GetPhis ex_succ) = length (GetXs ex_succ) \<and>
   checked_poses ex_succ = [(1, 0, 0), (2, 0, 0)] \<and>
   ValidityCheck free_collab [[]] ex_bounds ex_succ = Inr True"
proof -
  have h: "[[]] \<noteq> ([] :: LineSegment2d list list)" "GetStepSize ex_succ \<noteq> 0"
    "length (GetYs ex_succ) = length (GetXs ex_succ)"
    "length (GetPhis ex_succ) = length (GetXs ex_succ)"
    by (simp_all add: ex_succ_def GetStepSize_def)
  have c: "checked_poses ex_succ = [(1, 0, 0), (2, 0, 0)]"
    by (simp add: checked_poses_def poses_def ex_succ_def GetStepSize_def)
  from ValidityCheck_checks [OF h, of free_collab ex_bounds]
  have "ValidityCheck free_collab [[]] ex_bounds ex_succ = Inr True"
    by (simp add: c pose_valid_def ex_bounds_def free_collab_def)
  with h c show ?thesis by simp
qed

text \<open>
  C4 as the specification states it (every pose but the final one is checked) fails. The
  node whose only pose outside the bounds is its final pose is rejected although all
  poses but the final one are valid, and the node whose only pose outside the bounds is
  its first pose is accepted.
\<close>

theorem ValidityCheck_final_pose_counterexample:
  "ValidityCheck free_collab [[]] ex_bounds (new_Node3d [0, 0, 100] [0, 0, 0] [0, 0, 0]) = Inr False \<and>
   list_all (pose_valid free_collab [[]] ex_bounds)
     (butlast (poses (new_Node3d [0, 0, 100] [0, 0, 0] [0, 0, 0]))) \<and>
   ValidityCheck free_collab [[]] ex_bounds (new_Node3d [100, 0, 0] [0, 0, 0] [0, 0, 0]) = Inr True \<and>
   \<not> pose_valid free_collab [[]] ex_bounds
       (hd (poses (new_Node3d [100, 0, 0] [0, 0, 0] [0, 0, 0])))"
  by (simp add: ValidityCheck_def ValidityCheck_loop.simps GetStepSize_def size_t_sub_def
      new_Node3d_def ex_bounds_def free_collab_def Let_def poses_def pose_valid_def)

lemma ValidityCheck_no_obstacles: "ValidityCheck E [] B n = Inr True"
  by (simp add: ValidityCheck_def)

section \<open>Obstacle segments\<close>

lemma segments_loop_eq:
  assumes "bound + 1 = length vs" "i \<le> bound"
  shows "segments_loop vs bound i acc =
           Inr (acc @ map (\<lambda>j. \<lparr>seg_start = vs ! j, seg_end = vs ! (j + 1)\<rparr>) [i..<bound])"
  using assms
proof (induction "bound - i" arbitrary: i acc)
  case 0
  then show ?case by (subst segments_loop.simps) simp
next
  case (Suc k)
  from Suc.hyps(2) have lt: "i < bound" by arith
  from Suc.hyps(2) have k: "k = bound - (i + 1)" by arith
  from lt have le: "i + 1 \<le> bound" by arith
  note IH = Suc.hyps(1) [OF k Suc.prems(1) le]
  from lt Suc.prems(1) have r: "i < length vs" "i + 1 < length vs" by arith+
  show ?case
    using lt r IH by (subst segments_loop.simps) (simp add: vec_at_def upt_conv_Cons)
qed

lemma obstacle_segments_eq:
  assumes "vs \<noteq> []"
  shows "obstacle_segments vs =
           Inr (map (\<lambda>j. \<lparr>seg_start = vs ! j, seg_end = vs ! (j + 1)\<rparr>) [0..<length vs - 1])"
proof -
  from assms have "1 \<le> length vs" by (simp add: Suc_le_eq)
  then have s: "size_t_sub (length vs) 1 = length vs - 1" by (simp add: size_t_sub_def)
  have "length vs - 1 + 1 = length vs" using \<open>1 \<le> length vs\<close> by simp
  from segments_loop_eq [OF this, of 0 "[]"] s show ?thesis
    by (simp add: obstacle_segments_def)
qed

text \<open>
  C9 at the vertex list of length 0: \<open>vertices_num - 1\<close> wraps around to \<open>2 ^ 64 - 1\<close>,
  the loop is entered and reads \<^verbatim>\<open>obstacle_vertices[0]\<close> of an empty vector. For a list of
  \<open>n > 0\<close> vertices the loop builds the \<open>n - 1\<close> consecutive segments
  (\<open>obstacle_segments_eq\<close>).
\<close>

theorem obstacle_segments_empty:
  "obstacle_segments [] = Inl OutOfRange \<and>
   Plan_init free_collab 0 0 0 5 0 0 ex_bounds [[]] = Inl OutOfRange"
  by (simp add: obstacle_segments_def size_t_sub_def segments_loop.simps vec_at_def
      Plan_init_def fbind_def)

section \<open>Successor generation\<close>

lemma length_trajectory [simp]: "length (trajectory k f p) = k + 1"
  by (induction k arbitrary: p) simp_all

lemma hd_trajectory [simp]: "hd (trajectory k f p) = p"
  by (cases k) simp_all

lemma trajectory_nth:
  "i < k \<Longrightarrow> trajectory k f p ! (i + 1) = f (trajectory k f p ! i)"
proof (induction k arbitrary: p i)
  case 0
  then show ?case by simp
next
  case (Suc k)
  show ?case
  proof (cases i)
    case 0
    then show ?thesis by (cases k) simp_all
  next
    case (Suc j)
    with Suc.prems have "j < k" by simp
    from Suc.IH [OF this, of "f p"] Suc show ?thesis by simp
  qed
qed

lemma Next_node_loop_trajectory:
  assumes "K = nat \<lceil>arc / step_size C\<rceil>" "i \<le> K"
  shows "Next_node_loop E C steering d arc i (ix, iy, iphi) (lx, ly, lphi) =
     (let T = trajectory (K - i) (bicycle_step E C steering d) (lx, ly, lphi)
      in (ix @ map fst (tl T), iy @ map (fst \<circ> snd) (tl T), iphi @ map (snd \<circ> snd) (tl T)))"
  using assms
proof (induction "K - i" arbitrary: i ix iy iphi lx ly lphi)
  case 0
  from "0.hyps" "0.prems"(2) have i: "i = K" by arith
  have nlt: "\<not> real i < arc / step_size C" unfolding i "0.prems"(1) by linarith
  have z: "K - i = 0" using i by simp
  show ?case
    by (subst Next_node_loop.simps) (simp add: nlt z)
next
  case (Suc k)
  from Suc.hyps(2) have "i < K" by arith
  then have lt: "real i < arc / step_size C" unfolding Suc.prems(1) by linarith
  have k: "k = K - (i + 1)" using Suc.hyps(2) by arith
  have le: "i + 1 \<le> K" using Suc.hyps(2) by arith
  have bs: "bicycle_step E C steering d (lx, ly, lphi) =
      (lx + d * cos lphi, ly + d * sin lphi,
       NormalizeAngle E (lphi + d / wheel_base C * tan steering))"
    by (simp add: bicycle_step_def)
  note IH = Suc.hyps(1) [OF k Suc.prems(1) le, of "ix @ [lx + d * cos lphi]"
      "iy @ [ly + d * sin lphi]"
      "iphi @ [NormalizeAngle E (lphi + d / wheel_base C * tan steering)]"
      "lx + d * cos lphi" "ly + d * sin lphi"
      "NormalizeAngle E (lphi + d / wheel_base C * tan steering)"]
  have T: "trajectory (K - i) (bicycle_step E C steering d) (lx, ly, lphi)
      = (lx, ly, lphi) # trajectory k (bicycle_step E C steering d)
          (bicycle_step E C steering d (lx, ly, lphi))"
    using Suc.hyps(2) [symmetric] by simp
  have tlT: "trajectory k f q = q # tl (trajectory k f q)" for f :: "'a \<Rightarrow> 'a" and q
    by (cases k) simp_all
  have step: "Next_node_loop E C steering d arc i (ix, iy, iphi) (lx, ly, lphi) =
      Next_node_loop E C steering d arc (i + 1)
        (ix @ [lx + d * cos lphi], iy @ [ly + d * sin lphi],
         iphi @ [NormalizeAngle E (lphi + d / wheel_base C * tan steering)])
        (lx + d * cos lphi, ly + d * sin lphi,
         NormalizeAngle E (lphi + d / wheel_base C * tan steering))"
    by (subst Next_node_loop.simps) (simp add: lt Let_def)
  let ?q = "(lx + d * cos lphi, ly + d * sin lphi,
       NormalizeAngle E (lphi + d / wheel_base C * tan steering))"
  define ts where "ts = tl (trajectory k (bicycle_step E C steering d) ?q)"
  have ts: "trajectory k (bicycle_step E C steering d) ?q = ?q # ts"
    unfolding ts_def by (rule tlT)
  show ?case
    unfolding step IH T k [symmetric] bs ts
    by (simp add: Let_def)
qed

lemma sqrt2_gt_1: "1 < sqrt 2"
  by simp

lemma sqrt2_lt_2: "sqrt 2 < 2"
  by (rule real_less_lsqrt) simp_all

lemma ceiling_sqrt2: "\<lceil>sqrt 2\<rceil> = 2"
  using sqrt2_gt_1 sqrt2_lt_2 by (simp add: ceiling_eq_iff)

lemma floor_sqrt2: "\<lfloor>sqrt 2\<rfloor> = 1"
  using sqrt2_gt_1 sqrt2_lt_2 by (simp add: floor_eq_iff)

lemma zip_trajectory [simp]:
  "zip (map fst T) (zip (map (fst \<circ> snd) T) (map (snd \<circ> snd) T)) = T"
  by (induction T) auto

lemma primitive_poses_eq:
  "primitive_poses E C cur i =
     (let (steering, d) = primitive_steering C i;
          T = trajectory (substeps C) (bicycle_step E C steering d)
                (GetX cur, GetY cur, GetPhi cur)
      in (map fst T, map (fst \<circ> snd) T, map (snd \<circ> snd) T))"
proof -
  obtain steering d where sd: "primitive_steering C i = (steering, d)"
    by (cases "primitive_steering C i")
  let ?T = "trajectory (substeps C) (bicycle_step E C steering d) (GetX cur, GetY cur, GetPhi cur)"
  have T: "?T = (GetX cur, GetY cur, GetPhi cur) # tl ?T"
    by (cases "substeps C") simp_all
  have "Next_node_loop E C steering d (sqrt 2 * xy_grid_resolution C) 0
          ([GetX cur], [GetY cur], [GetPhi cur]) (GetX cur, GetY cur, GetPhi cur) =
        ([GetX cur] @ map fst (tl ?T), [GetY cur] @ map (fst \<circ> snd) (tl ?T),
         [GetPhi cur] @ map (snd \<circ> snd) (tl ?T))"
    using Next_node_loop_trajectory [of "substeps C" "sqrt 2 * xy_grid_resolution C" C 0]
    by (simp add: substeps_def Let_def)
  also have "\<dots> = (map fst ?T, map (fst \<circ> snd) ?T, map (snd \<circ> snd) ?T)"
    by (subst (4 5 6) T) simp
  finally show ?thesis
    by (simp add: primitive_poses_def sd Let_def)
qed

lemma primitive_steering_distance:
  "snd (primitive_steering C i) = step_size C \<or> snd (primitive_steering C i) = - step_size C"
  by (simp add: primitive_steering_def Let_def)

lemma Next_node_generator_eq:
  assumes "0 < step_size C"
  shows "Next_node_generator E C B cur i =
     Inr (let (steering, d) = primitive_steering C i;
              T = trajectory (substeps C) (bicycle_step E C steering d)
                    (GetX cur, GetY cur, GetPhi cur)
          in if last (map fst T) > XYbounds_1 B \<or> last (map fst T) < XYbounds_0 B \<or>
                last (map (fst \<circ> snd) T) > XYbounds_3 B \<or>
                last (map (fst \<circ> snd) T) < XYbounds_2 B
             then None
             else Some (Node3d (map fst T) (map (fst \<circ> snd) T) (map (snd \<circ> snd) T)
                          (Some cur) (0 < d) steering 0 0))"
proof -
  obtain steering d where sd: "primitive_steering C i = (steering, d)"
    by (cases "primitive_steering C i")
  show ?thesis
    using assms
    by (simp add: Next_node_generator_def primitive_poses_eq sd Let_def
        SetSteer_def SetDirec_def SetPre_def new_Node3d_def)
qed

text \<open>
  C3, as the code has it. With a positive \<open>step_size\<close>, \<open>Next_node_generator\<close> returns,
  and the poses of a node it returns are the pose of the current node followed by
  \<open>substeps C\<close> bicycle-model steps, where \<open>substeps C\<close> is the ceiling of
  \<open>sqrt 2 * xy_grid_resolution / step_size\<close>: the loop runs while the counter is less than
  the quotient. Each step moves by \<open>step_size\<close> forwards or backwards. The sequences have
  \<open>substeps C + 1\<close> entries.
\<close>

theorem Next_node_generator_substeps:
  assumes "0 < step_size C"
  shows "(\<exists>r. Next_node_generator E C B cur i = Inr r) \<and>
         (\<forall>n. Next_node_generator E C B cur i = Inr (Some n) \<longrightarrow>
            poses n = trajectory (substeps C)
                        (bicycle_step E C (GetSteer n)
                           (if GetDirec n then step_size C else - step_size C))
                        (GetX cur, GetY cur, GetPhi cur) \<and>
            length (GetXs n) = substeps C + 1 \<and>
            length (GetYs n) = substeps C + 1 \<and>
            length (GetPhis n) = substeps C + 1 \<and>
            GetPreNode n = Some cur)"
proof -
  obtain steering d where sd: "primitive_steering C i = (steering, d)"
    by (cases "primitive_steering C i")
  from primitive_steering_distance [of C i] sd
  have d: "d = step_size C \<or> d = - step_size C" by simp
  with assms have dd: "d = (if 0 < d then step_size C else - step_size C)" by auto
  note eq = Next_node_generator_eq [OF assms, of E B cur i]
  have "\<exists>r. Next_node_generator E C B cur i = Inr r"
    unfolding eq by blast
  moreover have "poses n = trajectory (substeps C)
                        (bicycle_step E C (GetSteer n)
                           (if GetDirec n then step_size C else - step_size C))
                        (GetX cur, GetY cur, GetPhi cur) \<and>
            length (GetXs n) = substeps C + 1 \<and>
            length (GetYs n) = substeps C + 1 \<and>
            length (GetPhis n) = substeps C + 1 \<and>
            GetPreNode n = Some cur"
    if "Next_node_generator E C B cur i = Inr (Some n)" for n
  proof -
    from that [unfolded eq]
    have n: "n = Node3d
        (map fst (trajectory (substeps C) (bicycle_step E C steering d)
                    (GetX cur, GetY cur, GetPhi cur)))
        (map (fst \<circ> snd) (trajectory (substeps C) (bicycle_step E C steering d)
                    (GetX cur, GetY cur, GetPhi cur)))
        (map (snd \<circ> snd) (trajectory (substeps C) (bicycle_step E C steering d)
                    (GetX cur, GetY cur, GetPhi cur)))
        (Some cur) (0 < d) steering 0 0"
      by (simp add: sd Let_def split: if_splits)
    show ?thesis
      unfolding n using dd by (simp add: poses_def)
  qed
  ultimately show ?thesis by blast
qed

lemma substeps_ex_config: "substeps ex_config = 2"
  by (simp add: substeps_def ex_config_def ceiling_sqrt2)

lemma ex_successor:
  "Next_node_generator free_collab ex_config ex_bounds ex_start 0 = Inr (Some ex_succ)"
proof -
  have p: "primitive_steering ex_config 0 = (0, 1)"
    by (simp add: primitive_steering_def ex_config_def)
  have T: "trajectory 2 (bicycle_step free_collab ex_config 0 1) (0, 0, 0) =
             [(0, 0, 0), (1, 0, 0), (2, 0, 0)]"
    by (simp add: numeral_2_eq_2 bicycle_step_def free_collab_def ex_config_def)
  have s: "0 < step_size ex_config" by (simp add: ex_config_def)
  show ?thesis
    unfolding Next_node_generator_eq [OF s]
    by (simp add: p substeps_ex_config T ex_start_def new_Node3d_def GetX_def GetY_def
        GetPhi_def ex_bounds_def ex_succ_def)
qed

text \<open>
  An instance of C3 as the code has it: the first primitive from \<open>(0, 0, 0)\<close> under
  \<open>ex_config\<close>, where the quotient is \<open>sqrt 2\<close> and two substeps are taken.
\<close>

theorem Next_node_generator_substeps_witness:
  "0 < step_size ex_config \<and>
   Next_node_generator free_collab ex_config ex_bounds ex_start 0 = Inr (Some ex_succ) \<and>
   poses ex_succ = [(0, 0, 0), (1, 0, 0), (2, 0, 0)] \<and>
   length (GetXs ex_succ) = substeps ex_config + 1"
proof -
  have s: "0 < step_size ex_config" by (simp add: ex_config_def)
  from Next_node_generator_substeps [OF s, of free_collab ex_bounds ex_start 0] ex_successor
  have "length (GetXs ex_succ) = substeps ex_config + 1" by blast
  moreover have "poses ex_succ = [(0, 0, 0), (1, 0, 0), (2, 0, 0)]"
    by (simp add: poses_def ex_succ_def)
  ultimately show ?thesis using s ex_successor by simp
qed

text \<open>
  C3 as the specification states it (the floor of the quotient) fails at the same input: the
  node has three poses, and the floor of \<open>sqrt 2\<close> plus one is two.
\<close>

theorem Next_node_generator_floor_counterexample:
  "Next_node_generator free_collab ex_config ex_bounds ex_start 0 = Inr (Some ex_succ) \<and>
   length (GetXs ex_succ) = 3 \<and>
   nat \<lfloor>sqrt 2 * xy_grid_resolution ex_config / step_size ex_config\<rfloor> + 1 = 2"
  using ex_successor by (simp add: ex_succ_def ex_config_def floor_sqrt2)

section \<open>Edge cost\<close>

text \<open>
  C6. For a successor with at least one pose, \<open>TrajCost\<close> is the distance term
  \<open>(step_size_count - 1) * step_size\<close> times the forward or back penalty chosen by the
  direction of the successor, plus the gear switch penalty when the directions differ,
  plus the two steering terms.
\<close>

theorem TrajCost_formula:
  assumes "GetStepSize next_node \<noteq> 0"
  shows "TrajCost C current_node next_node =
     (real (GetStepSize next_node) - 1) * step_size C
        * (if GetDirec next_node then traj_forward_penalty C else traj_back_penalty C)
     + (if GetDirec current_node \<noteq> GetDirec next_node then traj_gear_switch_penalty C else 0)
     + traj_steer_penalty C * \<bar>GetSteer next_node\<bar>
     + traj_steer_change_penalty C * \<bar>GetSteer next_node - GetSteer current_node\<bar>"
proof -
  from assms have "1 \<le> GetStepSize next_node" by simp
  then have "real (size_t_sub (GetStepSize next_node) 1) = real (GetStepSize next_node) - 1"
    by (simp add: size_t_sub_def)
  then show ?thesis
    by (simp add: TrajCost_def Let_def)
qed

theorem TrajCost_formula_witness:
  "GetStepSize ex_succ \<noteq> 0 \<and> TrajCost ex_config ex_start ex_succ = 2"
  using TrajCost_formula [of ex_succ ex_config ex_start]
  by (simp add: ex_succ_def ex_start_def ex_config_def GetStepSize_def new_Node3d_def)

section \<open>Path reconstruction\<close>

lemma ancestry_nonempty [simp]: "ancestry n \<noteq> []"
  by (induction n rule: ancestry.induct) simp_all

lemma joined_root [simp]:
  "joined sel (Node3d xs ys phis None d s tc hc) = [last (sel (Node3d xs ys phis None d s tc hc))]"
  by (simp add: joined_def)

lemma joined_step [simp]:
  "joined sel (Node3d xs ys phis (Some pre) d s tc hc) =
     joined sel pre @ tl (sel (Node3d xs ys phis (Some pre) d s tc hc))"
  by (simp add: joined_def)

lemma hd_joined: "hd (joined sel n) = last (sel (hd (ancestry n)))"
  by (simp add: joined_def)

lemma last_joined: "linked sel n \<Longrightarrow> last (joined sel n) = last (sel n)"
proof (induction n rule: ancestry.induct)
  case (1 xs ys phis d s tc hc)
  show ?case by simp
next
  case (2 xs ys phis pre d s tc hc)
  let ?n = "Node3d xs ys phis (Some pre) d s tc hc"
  from "2.prems" have ne: "sel ?n \<noteq> []" and link: "hd (sel ?n) = last (sel pre)"
    and lp: "linked sel pre" by simp_all
  from "2.IH" [OF lp] have IH: "last (joined sel pre) = last (sel pre)" .
  have jn: "joined sel pre \<noteq> []" by (simp add: joined_def)
  show ?case
  proof (cases "tl (sel ?n) = []")
    case True
    with ne have "sel ?n = [hd (sel ?n)]"
      by (metis list.collapse)
    then have "last (sel ?n) = hd (sel ?n)"
      by (metis last.simps)
    with True IH link show ?thesis by simp
  next
    case False
    then have "last (joined sel pre @ tl (sel ?n)) = last (tl (sel ?n))" by simp
    also have "\<dots> = last (sel ?n)" using False ne by (simp add: last_tl)
    finally show ?thesis by simp
  qed
qed

lemma GetResult_loop_joined:
  assumes "linked GetXs n" "linked GetYs n" "linked GetPhis n"
  shows "GetResult_loop n hx hy hphi =
           Some (hd (ancestry n),
                 hx @ rev (tl (joined GetXs n)),
                 hy @ rev (tl (joined GetYs n)),
                 hphi @ rev (tl (joined GetPhis n)))"
  using assms
proof (induction n hx hy hphi rule: GetResult_loop.induct)
  case (1 xs ys phis d s tc hc hx hy hphi)
  show ?case by simp
next
  case (2 xs ys phis pre d s tc hc hx hy hphi)
  from "2.prems" have ne: "xs \<noteq> []" "ys \<noteq> []" "phis \<noteq> []"
    and lp: "linked GetXs pre" "linked GetYs pre" "linked GetPhis pre"
    by simp_all
  have j: "joined sel pre \<noteq> []" for sel by (simp add: joined_def)
  have t: "tl (joined sel pre @ zs) = tl (joined sel pre) @ zs" for sel zs
    using j [of sel] by simp
  from ne have "\<not> (xs = [] \<or> ys = [] \<or> phis = [])" by simp
  from "2.IH" [OF this lp] ne show ?case
    by (simp add: t butlast_rev)
qed

text \<open>
  C8. For a final node whose chain of predecessors is linked (every node has at least
  one pose, and the first pose of every node but the first one is the last pose of
  its predecessor), the reconstruction succeeds and yields, in each coordinate, the
  sequences of the chain joined from the start to the final node with every shared
  pose once; its first pose is the pose of the start node and its last pose is the
  last pose of the final node.
\<close>

theorem GetResult_path_joined:
  assumes "chain_ok final"
  shows "GetResult_path final =
           Some (joined GetXs final, joined GetYs final, joined GetPhis final) \<and>
         hd (joined GetXs final) = GetX (hd (ancestry final)) \<and>
         hd (joined GetYs final) = GetY (hd (ancestry final)) \<and>
         hd (joined GetPhis final) = GetPhi (hd (ancestry final)) \<and>
         last (joined GetXs final) = GetX final \<and>
         last (joined GetYs final) = GetY final \<and>
         last (joined GetPhis final) = GetPhi final"
proof -
  from assms have l: "linked GetXs final" "linked GetYs final" "linked GetPhis final"
    by (simp_all add: chain_ok_def)
  have r: "rev (rev (tl (joined sel final)) @ [last (sel (hd (ancestry final)))]) = joined sel final"
    for sel by (simp add: joined_def)
  have "GetResult_path final =
          Some (joined GetXs final, joined GetYs final, joined GetPhis final)"
    unfolding GetResult_path_def GetResult_loop_joined [OF l]
    using r [of GetXs] r [of GetYs] r [of GetPhis]
    by (simp add: GetX_def GetY_def GetPhi_def)
  then show ?thesis
    using l by (simp add: hd_joined last_joined GetX_def GetY_def GetPhi_def)
qed

text \<open>
  An instance of C8: the chain of \<open>ex_start\<close> and its successor \<open>ex_succ\<close>.
\<close>

theorem GetResult_path_joined_witness:
  "chain_ok ex_succ \<and>
   GetResult_path ex_succ = Some ([0, 1, 2], [0, 0, 0], [0, 0, 0])"
  using GetResult_path_joined [of ex_succ]
  by (simp add: chain_ok_def ex_succ_def ex_start_def new_Node3d_def joined_def)

section \<open>Speed profile by finite differences\<close>

lemma discrete_v_frame [simp]:
  "discrete_v C (r\<lparr>res_v := v\<rparr>) = discrete_v C r"
  by (rule ext) (simp add: discrete_v_def)

lemma upt_step: "Suc i < n \<Longrightarrow> [i..<n - Suc 0] = i # [Suc i..<n - Suc 0]"
  by (simp add: upt_conv_Cons)

lemma upt_done: "\<not> i + 1 < n \<Longrightarrow> [i..<n - 1] = []"
  by simp

lemma velocity_loop_eq:
  assumes "length (res_x r) = n" "length (res_y r) = n" "length (res_phi r) = n"
  shows "velocity_loop C n i r =
           Inr (r\<lparr>res_v := res_v r @ map (discrete_v C r) [i..<n - 1]\<rparr>)"
  using assms
proof (induction C n i r rule: velocity_loop.induct)
  case (1 C x_size i r)
  show ?case
  proof (cases "i + 1 < x_size")
    case False
    then show ?thesis
      by (subst velocity_loop.simps) (simp add: upt_done)
  next
    case True
    then have g: "i + 1 < length (res_x r) \<and> i + 1 < length (res_y r) \<and> i < length (res_phi r)"
      using "1.prems" by simp
    from "1.IH" [OF True g] "1.prems"
    have "velocity_loop C x_size (i + 1) (r\<lparr>res_v := res_v r @ [discrete_v C r i]\<rparr>) =
            Inr (r\<lparr>res_v := (res_v r @ [discrete_v C r i]) @
                    map (discrete_v C r) [i + 1..<x_size - 1]\<rparr>)"
      by simp
    with True g show ?thesis
      by (subst velocity_loop.simps) (simp add: upt_step)
  qed
qed

lemma acceleration_loop_eq:
  assumes "n \<le> length (res_v r)"
  shows "acceleration_loop C n i r =
           Inr (r\<lparr>res_a := res_a r @
                  map (\<lambda>j. (res_v r ! (j + 1) - res_v r ! j) / delta_t C) [i..<n - 1]\<rparr>)"
  using assms
proof (induction C n i r rule: acceleration_loop.induct)
  case (1 C x_size i r)
  show ?case
  proof (cases "i + 1 < x_size")
    case False
    then show ?thesis
      by (subst acceleration_loop.simps) (simp add: upt_done)
  next
    case True
    then have g: "i + 1 < length (res_v r)" using "1.prems" by simp
    from "1.IH" [OF True g] "1.prems" True g show ?thesis
      by (subst acceleration_loop.simps) (simp add: upt_step)
  qed
qed

lemma discrete_steer_frame [simp]:
  "discrete_steer C (r\<lparr>res_steer := v\<rparr>) = discrete_steer C r"
  by (rule ext) (simp add: discrete_steer_def)

lemma discrete_steer_frame_a [simp]:
  "discrete_steer C (r\<lparr>res_a := v\<rparr>) = discrete_steer C r"
  by (rule ext) (simp add: discrete_steer_def)

lemma steer_loop_eq:
  assumes "n \<le> length (res_phi r)" "n \<le> length (res_v r) + 1"
  shows "steer_loop C n i r =
           Inr (r\<lparr>res_steer := res_steer r @ map (discrete_steer C r) [i..<n - 1]\<rparr>)"
  using assms
proof (induction C n i r rule: steer_loop.induct)
  case (1 C x_size i r)
  show ?case
  proof (cases "i + 1 < x_size")
    case False
    then show ?thesis
      by (subst steer_loop.simps) (simp add: upt_done)
  next
    case True
    then have g: "i + 1 < length (res_phi r) \<and> i < length (res_v r)" using "1.prems" by simp
    from "1.IH" [OF True g] "1.prems" True g show ?thesis
      by (subst steer_loop.simps) (simp add: upt_step)
  qed
qed

lemma GenerateSpeedAcceleration_eq:
  assumes "length (res_x r) = n" "length (res_y r) = n" "length (res_phi r) = n" "2 \<le> n"
    and "res_v r = []" "res_a r = []" "res_steer r = []"
  shows "GenerateSpeedAcceleration C r =
     Inr (True,
       let v = map (discrete_v C r) [0..<n - 1] @ [0]
       in r\<lparr>res_v := v,
            res_a := map (\<lambda>j. (v ! (j + 1) - v ! j) / delta_t C) [0..<n - 1],
            res_steer := map (discrete_steer C (r\<lparr>res_v := v\<rparr>)) [0..<n - 1]\<rparr>)"
proof -
  let ?v = "map (discrete_v C r) [0..<n - 1] @ [0]"
  let ?r1 = "r\<lparr>res_v := res_v r @ map (discrete_v C r) [0..<n - 1]\<rparr>"
  let ?r2 = "?r1\<lparr>res_v := res_v ?r1 @ [0]\<rparr>"
  let ?r3 = "?r2\<lparr>res_a := res_a ?r2 @
               map (\<lambda>j. (res_v ?r2 ! (j + 1) - res_v ?r2 ! j) / delta_t C) [0..<n - 1]\<rparr>"
  have v: "velocity_loop C n 0 r = Inr ?r1"
    using assms(1-3) by (rule velocity_loop_eq)
  have a: "acceleration_loop C n 0 ?r2 = Inr ?r3"
    by (rule acceleration_loop_eq) (use assms in simp)
  have s: "steer_loop C n 0 ?r3 =
     Inr (?r3\<lparr>res_steer := res_steer ?r3 @ map (discrete_steer C ?r3) [0..<n - 1]\<rparr>)"
    by (rule steer_loop_eq) (use assms in simp_all)
  show ?thesis
    unfolding GenerateSpeedAcceleration_def
    using assms v a s
    by (simp add: fbind_def Let_def)
qed

text \<open>
  C7, as the code has it. On a path of \<open>N \<ge> 2\<close> poses and a result whose \<open>v\<close>, \<open>a\<close> and
  \<open>steer\<close> are empty on entry (the source appends to them and nothing clears them),
  \<open>GenerateSpeedAcceleration\<close> returns true
  and leaves the path as it is; \<open>v\<close> has \<open>N\<close> entries, the finite differences followed
  by 0; \<open>a\<close> has \<open>N - 1\<close> entries, the differences of \<open>v\<close> over \<open>delta_t\<close>; \<open>steer\<close> has
  \<open>N - 1\<close> entries; and the size checks that close \<open>GetResult\<close> hold.
\<close>

theorem GenerateSpeedAcceleration_finite_differences:
  assumes "length (res_x r) = N" "length (res_y r) = N" "length (res_phi r) = N" "2 \<le> N"
    and "res_v r = []" "res_a r = []" "res_steer r = []"
  shows "\<exists>r'. GenerateSpeedAcceleration C r = Inr (True, r') \<and>
           res_x r' = res_x r \<and> res_y r' = res_y r \<and> res_phi r' = res_phi r \<and>
           length (res_v r') = N \<and> length (res_a r') = N - 1 \<and>
           length (res_steer r') = N - 1 \<and>
           (\<forall>i < N - 1. res_v r' ! i =
              ((res_x r ! (i + 1) - res_x r ! i) / delta_t C) * cos (res_phi r ! i)
              + ((res_y r ! (i + 1) - res_y r ! i) / delta_t C) * sin (res_phi r ! i)) \<and>
           res_v r' ! (N - 1) = 0 \<and>
           (\<forall>i < N - 1. res_a r' ! i = (res_v r' ! (i + 1) - res_v r' ! i) / delta_t C) \<and>
           length (res_x r') = length (res_y r') \<and>
           length (res_x r') = length (res_v r') \<and>
           length (res_x r') = length (res_phi r') \<and>
           length (res_a r') = length (res_steer r') \<and>
           size_t_sub (length (res_x r')) (length (res_a r')) = 1"
proof -
  let ?v = "map (discrete_v C r) [0..<N - 1] @ [0]"
  let ?r' = "r\<lparr>res_v := ?v,
               res_a := map (\<lambda>j. (?v ! (j + 1) - ?v ! j) / delta_t C) [0..<N - 1],
               res_steer := map (discrete_steer C (r\<lparr>res_v := ?v\<rparr>)) [0..<N - 1]\<rparr>"
  have run: "GenerateSpeedAcceleration C r = Inr (True, ?r')"
    using GenerateSpeedAcceleration_eq [OF assms, of C] by (simp add: Let_def)
  have vi: "?v ! i = discrete_v C r i" if "i < N - 1" for i
    using that by (simp add: nth_append)
  have vl: "?v ! (N - 1) = 0"
    by (simp add: nth_append)
  have st: "size_t_sub N (N - 1) = 1"
    using assms(4) by (simp add: size_t_sub_def)
  have "res_x ?r' = res_x r" "res_y ?r' = res_y r" "res_phi ?r' = res_phi r"
    "length (res_v ?r') = N" "length (res_a ?r') = N - 1" "length (res_steer ?r') = N - 1"
    using assms(4) by simp_all
  moreover have "\<forall>i < N - 1. res_v ?r' ! i =
              ((res_x r ! (i + 1) - res_x r ! i) / delta_t C) * cos (res_phi r ! i)
              + ((res_y r ! (i + 1) - res_y r ! i) / delta_t C) * sin (res_phi r ! i)"
    using vi by (simp add: discrete_v_def)
  moreover have "res_v ?r' ! (N - 1) = 0"
    using vl by simp
  moreover have "\<forall>i < N - 1. res_a ?r' ! i = (res_v ?r' ! (i + 1) - res_v ?r' ! i) / delta_t C"
    by simp
  moreover have "length (res_x ?r') = length (res_y ?r')"
    "length (res_x ?r') = length (res_v ?r')"
    "length (res_x ?r') = length (res_phi ?r')"
    "length (res_a ?r') = length (res_steer ?r')"
    "size_t_sub (length (res_x ?r')) (length (res_a ?r')) = 1"
    using assms(1-4) st by simp_all
  ultimately show ?thesis
    using run by blast
qed

text \<open>
  An instance of C7 as the code has it: the straight path of three poses in a fresh
  result.
\<close>

theorem GenerateSpeedAcceleration_finite_differences_witness:
  "length (res_x ex_path) = 3 \<and> res_v ex_path = [] \<and>
   (\<exists>r'. GenerateSpeedAcceleration ex_config ex_path = Inr (True, r') \<and>
         length (res_v r') = 3 \<and> length (res_a r') = 2 \<and> res_v r' ! 2 = 0)"
proof -
  have h: "length (res_x ex_path) = 3" "length (res_y ex_path) = 3"
    "length (res_phi ex_path) = 3" "(2::nat) \<le> 3"
    "res_v ex_path = []" "res_a ex_path = []" "res_steer ex_path = []"
    by (simp_all add: ex_path_def ex_result_def)
  from GenerateSpeedAcceleration_finite_differences [OF h, of ex_config]
  obtain r' where "GenerateSpeedAcceleration ex_config ex_path = Inr (True, r')"
    "length (res_v r') = 3" "length (res_a r') = 3 - 1" "res_v r' ! (3 - 1) = 0"
    by blast
  then have "\<exists>r'. GenerateSpeedAcceleration ex_config ex_path = Inr (True, r') \<and>
         length (res_v r') = 3 \<and> length (res_a r') = 2 \<and> res_v r' ! 2 = 0"
    by auto
  with h show ?thesis by simp
qed

lemma reused_run:
  "GenerateSpeedAcceleration ex_config reused_path =
     Inr (True, reused_path\<lparr>res_v := [9, 1, 1, 0], res_a := [- 8, 0], res_steer := [0, 0]\<rparr>)"
proof -
  have x: "length (res_x reused_path) = 3" "length (res_y reused_path) = 3"
    "length (res_phi reused_path) = 3"
    by (simp_all add: reused_path_def ex_path_def ex_result_def)
  have u: "[0..<2] = [0, Suc 0]" by (simp add: upt_rec)
  have d: "discrete_v ex_config reused_path 0 = 1" "discrete_v ex_config reused_path (Suc 0) = 1"
    by (simp_all add: discrete_v_def reused_path_def ex_path_def ex_result_def ex_config_def)
  let ?r1 = "reused_path\<lparr>res_v := [9, 1, 1]\<rparr>"
  have v: "velocity_loop ex_config 3 0 reused_path = Inr ?r1"
    using velocity_loop_eq [OF x, of ex_config 0]
    by (simp add: u d) (simp add: reused_path_def)
  let ?r2 = "reused_path\<lparr>res_v := [9, 1, 1, 0]\<rparr>"
  let ?r3 = "?r2\<lparr>res_a := [- 8, 0]\<rparr>"
  have a: "acceleration_loop ex_config 3 0 ?r2 = Inr ?r3"
    using acceleration_loop_eq [of 3 ?r2 ex_config 0]
    by (simp add: u) (simp add: reused_path_def ex_path_def ex_result_def ex_config_def)
  have s: "steer_loop ex_config 3 0 ?r3 = Inr (?r3\<lparr>res_steer := [0, 0]\<rparr>)"
    using steer_loop_eq [of 3 ?r3 ex_config 0]
    by (simp add: u reused_path_def ex_path_def ex_result_def)
      (simp add: discrete_steer_def)
  show ?thesis
    by (simp add: GenerateSpeedAcceleration_def x fbind_def v a s Let_def)
qed

text \<open>
  C7 as the specification states it (for every path of \<open>N \<ge> 2\<close> poses) fails on a result
  object that is used again. On the path of three poses with one velocity left in
  \<open>v\<close>, the profiler returns true with four velocities, the first of them the old one,
  and \<open>v[2]\<close> is not 0; \<open>GetResult\<close> then fails its size check and returns false.
\<close>

theorem GenerateSpeedAcceleration_reused_result_counterexample:
  "length (res_x reused_path) = 3 \<and> length (res_y reused_path) = 3 \<and>
   length (res_phi reused_path) = 3 \<and>
   GenerateSpeedAcceleration ex_config reused_path =
     Inr (True, reused_path\<lparr>res_v := [9, 1, 1, 0], res_a := [- 8, 0], res_steer := [0, 0]\<rparr>) \<and>
   length (res_v (reused_path\<lparr>res_v := [9, 1, 1, 0], res_a := [- 8, 0],
                              res_steer := [0, 0]\<rparr>)) \<noteq> length (res_x reused_path) \<and>
   (\<exists>r. GetResult free_collab ex_config ex_succ reused_path = Inr (False, r))"
proof -
  have p: "GetResult_path ex_succ = Some ([0, 1, 2], [0, 0, 0], [0, 0, 0])"
    by (simp add: GetResult_path_def ex_succ_def ex_start_def new_Node3d_def GetX_def GetY_def
        GetPhi_def)
  have same: "reused_path\<lparr>res_x := [0, 1, 2], res_y := [0, 0, 0], res_phi := [0, 0, 0]\<rparr>
      = reused_path"
    by (simp add: reused_path_def ex_path_def)
  have "\<exists>r. GetResult free_collab ex_config ex_succ reused_path = Inr (False, r)"
    by (simp add: GetResult_def p same reused_run fbind_def)
      (simp add: ex_config_def reused_path_def ex_path_def)
  then show ?thesis
    by (simp add: reused_run) (simp add: reused_path_def ex_path_def ex_result_def)
qed

lemma GetResult_finite_differences:
  assumes "GetResult_path final = Some (px, py, pphi)"
    and "length px = N" "length py = N" "length pphi = N" "2 \<le> N"
    and "\<not> FLAGS_use_s_curve_speed_smooth C"
    and "res_v r = []" "res_a r = []" "res_steer r = []"
  shows "\<exists>r'. GetResult E C final r = Inr (True, r') \<and>
           res_x r' = px \<and> res_y r' = py \<and> res_phi r' = pphi"
proof -
  let ?r = "r\<lparr>res_x := px, res_y := py, res_phi := pphi\<rparr>"
  have "length (res_x ?r) = N" "length (res_y ?r) = N" "length (res_phi ?r) = N"
    "res_v ?r = []" "res_a ?r = []" "res_steer ?r = []"
    using assms by simp_all
  from GenerateSpeedAcceleration_eq [OF this(1-3) assms(5) this(4-6), of C]
  obtain r' where g: "GenerateSpeedAcceleration C ?r = Inr (True, r')"
    and f: "res_x r' = px" "res_y r' = py" "res_phi r' = pphi"
      "length (res_v r') = N" "length (res_a r') = N - 1" "length (res_steer r') = N - 1"
    using assms(5) by (auto simp: Let_def)
  have st: "size_t_sub N (N - 1) = 1"
    using assms(5) by (simp add: size_t_sub_def)
  show ?thesis
    using assms(1-6) g f st
    by (simp add: GetResult_def fbind_def)
qed

section \<open>Speed profile by the piecewise-jerk QP\<close>

lemma short_reference:
  "s_reference ex_config short_path =
     Inr (short_path\<lparr>res_accumulated_s := [0, 1], res_v := [0, 0]\<rparr>)"
  by (simp add: s_reference_def s_reference_loop.simps fbind_def Let_def discrete_v_def
      size_t_sub_def short_path_def ex_result_def ex_config_def)

lemma min_element_zeros: "min_element [0, 0] = 0"
  by (simp add: min_element_def min_element_loop.simps)

text \<open>
  C2 at the path of two poses \<open>(0, 0, 0), (1, 0, 0)\<close> with \<open>delta_t = 1\<close>. The
  velocity sequence handed to the bounds is \<open>[0, 0]\<close>; its first smallest element is at
  position 0, the iterator moved back by 10 points before the vector, and the read is
  out of range. The lower bound is not \<open>min v - 10\<close>.
\<close>

theorem first_order_lower_out_of_range:
  "s_reference ex_config short_path =
     Inr (short_path\<lparr>res_accumulated_s := [0, 1], res_v := [0, 0]\<rparr>) \<and>
   first_order_lower [0, 0] = Inl OutOfRange \<and>
   GenerateSCurveSpeedAcceleration E ex_config short_path = Inl OutOfRange"
proof -
  have lo: "first_order_lower [0, 0] = Inl OutOfRange"
    by (simp add: first_order_lower_def min_element_zeros iter_at_def)
  have z: "zero_order_lower [0, 1] = Inr (- 10)" "zero_order_upper [0, 1] = Inr 11"
    by (simp_all add: zero_order_lower_def zero_order_upper_def min_element_def max_element_def
        min_element_loop.simps max_element_loop.simps iter_at_def fbind_def)
  have "s_curve_problem ex_config (short_path\<lparr>res_accumulated_s := [0, 1], res_v := [0, 0]\<rparr>)
          = Inl OutOfRange"
    by (simp add: s_curve_problem_def Let_def fbind_def vec_at_def lo z size_t_sub_def
        short_path_def ex_result_def)
  then have "GenerateSCurveSpeedAcceleration E ex_config short_path = Inl OutOfRange"
    by (simp add: GenerateSCurveSpeedAcceleration_def short_reference fbind_def Let_def)
      (simp add: short_path_def ex_result_def)
  with lo short_reference show ?thesis by simp
qed

text \<open>
  The same holds for every velocity sequence of at most 10 entries.
\<close>

lemma min_element_loop_bound:
  "smallest < length v \<Longrightarrow> min_element_loop v smallest first < length v"
proof (induction v smallest first rule: min_element_loop.induct)
  case (1 v smallest first)
  show ?case
  proof (cases "first < length v")
    case True
    with 1 show ?thesis by (subst min_element_loop.simps) simp
  next
    case False
    with 1 show ?thesis by (subst min_element_loop.simps) simp
  qed
qed

lemma first_order_lower_short:
  assumes "length v \<le> 10"
  shows "first_order_lower v = Inl OutOfRange"
proof -
  have "min_element v < 10"
  proof (cases "v = []")
    case True
    then show ?thesis by (simp add: min_element_def)
  next
    case False
    then have "min_element_loop v 0 1 < length v"
      by (intro min_element_loop_bound) simp
    with False assms show ?thesis by (simp add: min_element_def)
  qed
  then show ?thesis
    by (simp add: first_order_lower_def iter_at_def)
qed

section \<open>The search loop of Plan\<close>


lemma pq_min_in: "pq_min e es \<in> set (e # es)"
  by (induction es arbitrary: e) (simp, fastforce)

lemma map_fst_remove1:
  "distinct (map fst q) \<Longrightarrow> x \<in> set q \<Longrightarrow> map fst (remove1 x q) = remove1 (fst x) (map fst q)"
proof (induction q)
  case Nil
  then show ?case by simp
next
  case (Cons a q)
  show ?case
  proof (cases "x = a")
    case True
    then show ?thesis by simp
  next
    case False
    with Cons.prems have xin: "x \<in> set q" by simp
    then have "fst x \<in> fst ` set q" by (rule imageI)
    moreover from Cons.prems have "fst a \<notin> fst ` set q" by simp
    ultimately have "fst x \<noteq> fst a" by metis
    with False Cons xin show ?thesis by simp
  qed
qed

lemma GetIndex_CalculateNodeCost [simp]:
  "GetIndex E (CalculateNodeCost E' C cur n) = GetIndex E n"
  by (simp add: GetIndex_def CalculateNodeCost_def Let_def SetHeuCost_def SetTrajCost_def
      GetX_def GetY_def GetPhi_def)

lemma push_inv:
  assumes "queue_inv E S" "open_set S k = None" "GetIndex E n = k"
  shows "queue_inv E (S\<lparr>open_set := (open_set S)(k \<mapsto> n),
                         open_pq := open_pq S @ [(k, c)],
                         pushed_log := pushed_log S @ [k]\<rparr>)"
proof -
  from assms(2) have "k \<notin> dom (open_set S)" by (simp add: domIff)
  with assms(1) have fresh: "k \<notin> set (pushed_log S)"
    by (simp add: queue_inv_def)
  with assms(1) have fresh2: "k \<notin> set (map fst (open_pq S))" "k \<notin> set (popped_log S)"
    unfolding queue_inv_def by blast+
  from assms fresh fresh2 show ?thesis
    unfolding queue_inv_def by (auto simp: image_iff)
qed

lemma expand_one_inv:
  assumes "expand_one E C cur i S = Inr S'" "queue_inv E S"
  shows "queue_inv E S' \<and> close_set S' = close_set S \<and> popped_log S' = popped_log S"
  using assms
  by (auto simp: expand_one_def fbind_def Let_def map_insert_def push_inv
      split: sum.splits option.splits if_splits)

lemma expand_loop_inv:
  assumes "expand_loop E C cur i S = Inr S'" "queue_inv E S"
  shows "queue_inv E S' \<and> close_set S' = close_set S \<and> popped_log S' = popped_log S"
  using assms
proof (induction E C cur i S rule: expand_loop.induct)
  case (1 E C cur i S)
  show ?case
  proof (cases "i < next_node_num C")
    case False
    with "1.prems" show ?thesis by (simp add: expand_loop.simps)
  next
    case True
    with "1.prems"(1) obtain S1 where
      one: "expand_one E C cur i S = Inr S1"
      and more: "expand_loop E C cur (i + 1) S1 = Inr S'"
      by (subst (asm) expand_loop.simps) (auto split: sum.splits)
    from expand_one_inv [OF one "1.prems"(2)]
    have a: "queue_inv E S1" "close_set S1 = close_set S" "popped_log S1 = popped_log S"
      by simp_all
    from "1.IH" [OF True one more a(1)] a show ?thesis by simp
  qed
qed


lemma queue_inv_frame:
  assumes "open_set S' = open_set S" "open_pq S' = open_pq S"
    "pushed_log S' = pushed_log S" "popped_log S' = popped_log S"
  shows "queue_inv E S' = queue_inv E S"
  by (simp add: queue_inv_def assms)

lemma pq_top_in: "pq_top q = Inr tp \<Longrightarrow> tp \<in> set q"
  using pq_min_in by (auto simp: pq_top_def split: list.splits)

lemma pq_pop_eq: "pq_top q = Inr tp \<Longrightarrow> pq_pop q = remove1 tp q"
  by (auto simp: pq_top_def pq_pop_def split: list.splits)

lemma pop_inv:
  assumes "queue_inv E S" "pq_top (open_pq S) = Inr tp"
  shows "queue_inv E (S\<lparr>open_pq := pq_pop (open_pq S),
                         popped_log := popped_log S @ [fst tp]\<rparr>)"
proof -
  let ?q = "open_pq S"
  from assms(2) have tin: "tp \<in> set ?q" by (rule pq_top_in)
  from assms(1) have d: "distinct (map fst ?q)" by (simp add: queue_inv_def)
  have m: "map fst (pq_pop ?q) = remove1 (fst tp) (map fst ?q)"
    using map_fst_remove1 [OF d tin] pq_pop_eq [OF assms(2)] by simp
  have fin: "fst tp \<in> set (map fst ?q)" using tin by (simp add: image_iff) blast
  have s: "set (remove1 (fst tp) (map fst ?q)) = set (map fst ?q) - {fst tp}"
    using d by (rule set_remove1_eq)
  have d2: "distinct (remove1 (fst tp) (map fst ?q))" using d by simp
  from assms(1) have dq: "distinct (map fst ?q @ popped_log S)"
    and un: "set (map fst ?q) \<union> set (popped_log S) = set (pushed_log S)"
    by (simp_all add: queue_inv_def)
  from dq fin have np: "fst tp \<notin> set (popped_log S)" by auto
  have "distinct (remove1 (fst tp) (map fst ?q) @ popped_log S @ [fst tp])"
    using dq d2 np s by auto
  moreover have "set (remove1 (fst tp) (map fst ?q)) \<union> set (popped_log S @ [fst tp])
      = set (pushed_log S)"
    using un s fin by auto
  ultimately show ?thesis
    using assms(1) unfolding queue_inv_def by (simp add: m)
qed

lemma AnalyticExpansion_frame:
  assumes "AnalyticExpansion E S cur = Inr (found, S')"
  shows "open_set S' = open_set S \<and> open_pq S' = open_pq S \<and>
         pushed_log S' = pushed_log S \<and> popped_log S' = popped_log S \<and>
         (\<not> found \<longrightarrow> S' = S)"
  using assms
  by (auto simp: AnalyticExpansion_def LoadRSPinCS_def fbind_def Let_def
      split: option.splits sum.splits if_splits prod.splits)

lemma Plan_iter_inv:
  assumes it: "Plan_iter E C S = Inr (left, S')" and qi: "queue_inv E S"
    and ci: "closed_inv S"
  shows "queue_inv E S' \<and> (\<not> left \<longrightarrow> closed_inv S')"
proof -
  from it obtain tp where tp: "pq_top (open_pq S) = Inr tp"
    by (cases "pq_top (open_pq S)") (simp_all add: Plan_iter_def fbind_def)
  let ?S1 = "S\<lparr>open_pq := pq_pop (open_pq S), popped_log := popped_log S @ [fst tp]\<rparr>"
  have q1: "queue_inv E ?S1" using qi tp by (rule pop_inv)
  from it tp obtain cur where cur: "open_set S (fst tp) = Some cur"
    by (cases "open_set S (fst tp)") (simp_all add: Plan_iter_def fbind_def Let_def)
  from qi cur have idx: "GetIndex E cur = fst tp" by (simp add: queue_inv_def)
  from it tp cur obtain found S2 where
    ae: "AnalyticExpansion E ?S1 cur = Inr (found, S2)"
    by (cases "AnalyticExpansion E ?S1 cur")
       (auto simp: Plan_iter_def fbind_def Let_def)
  note fr = AnalyticExpansion_frame [OF ae]
  have q2: "queue_inv E S2"
    using q1 fr queue_inv_frame [of S2 ?S1 E] by simp
  show ?thesis
  proof (cases found)
    case True
    with it tp cur ae have "left" "S' = S2"
      by (simp_all add: Plan_iter_def fbind_def Let_def)
    with q2 show ?thesis by simp
  next
    case False
    with fr have S2: "S2 = ?S1" by simp
    let ?S3 = "?S1\<lparr>close_set := map_insert (close_set ?S1) (GetIndex E cur) cur\<rparr>"
    from it tp cur ae False S2 have el: "expand_loop E C cur 0 ?S3 = Inr S'" and nl: "\<not> left"
      by (auto simp: Plan_iter_def fbind_def Let_def split: sum.splits)
    have q3: "queue_inv E ?S3"
      using q1 queue_inv_frame [of ?S3 ?S1 E] by simp
    from expand_loop_inv [OF el q3]
    have r: "queue_inv E S'" "close_set S' = close_set ?S3" "popped_log S' = popped_log ?S3"
      by simp_all
    have "dom (close_set ?S3) \<subseteq> set (popped_log ?S3)"
      using ci idx by (auto simp: closed_inv_def map_insert_def split: if_splits)
    with r show ?thesis by (simp add: closed_inv_def)
  qed
qed

lemma Plan_init_inv:
  assumes "Plan_init E sx sy sphi ex ey ephi B obs = Inr (Some S0)"
  shows "queue_inv E S0 \<and> closed_inv S0"
  using assms
  by (auto simp: Plan_init_def fbind_def Let_def queue_inv_def closed_inv_def map_insert_def
      split: sum.splits if_splits)

lemma Plan_reach_inv:
  assumes "Plan_reach E C S0 lS" "queue_inv E S0" "closed_inv S0"
  shows "queue_inv E (snd lS) \<and> (\<not> fst lS \<longrightarrow> closed_inv (snd lS))"
  using assms
proof (induction rule: Plan_reach.induct)
  case enter
  then show ?case by simp
next
  case (iterate S left S')
  then have "queue_inv E S" "closed_inv S" by simp_all
  from Plan_iter_inv [OF iterate.hyps(3) this] show ?case by simp
qed

text \<open>
  The loop with fuel passes through the states of \<open>Plan_reach\<close> only.
\<close>

lemma Plan_loop_reach:
  assumes "Plan_reach E C S0 (False, S)" "Plan_loop fuel E C S = Inr (Some S')"
  shows "\<exists>left. Plan_reach E C S0 (left, S')"
  using assms
proof (induction fuel arbitrary: S)
  case 0
  then show ?case by simp
next
  case (Suc fuel)
  show ?case
  proof (cases "open_pq S = []")
    case True
    with Suc.prems show ?thesis by auto
  next
    case False
    with Suc.prems(2) obtain left S1 where it: "Plan_iter E C S = Inr (left, S1)"
      and rest: "if left then S' = S1 else Plan_loop fuel E C S1 = Inr (Some S')"
      by (auto split: sum.splits prod.splits if_splits)
    from Plan_reach.iterate [OF Suc.prems(1) False it]
    have r: "Plan_reach E C S0 (left, S1)" .
    show ?thesis
    proof (cases left)
      case True
      with rest r show ?thesis by auto
    next
      case False
      with rest r Suc.IH [of S1] show ?thesis by auto
    qed
  qed
qed

text \<open>
  C10. In every state of an execution of the search loop, every index that was pushed
  onto \<open>open_pq\<close> is a key of \<open>open_set\<close>, no index was pushed twice, no index was
  popped twice, and the entry that the next iteration pops has a node in \<open>open_set\<close>,
  whose index is the popped index.
\<close>

theorem Plan_queue_invariant:
  assumes "Plan_init E sx sy sphi ex ey ephi B obs = Inr (Some S0)"
    and "Plan_reach E C S0 (left, S)"
  shows "set (pushed_log S) \<subseteq> dom (open_set S) \<and>
         distinct (pushed_log S) \<and>
         distinct (popped_log S) \<and>
         (\<forall>tp. pq_top (open_pq S) = Inr tp \<longrightarrow>
            (\<exists>n. open_set S (fst tp) = Some n \<and> GetIndex E n = fst tp))"
proof -
  from Plan_init_inv [OF assms(1)] Plan_reach_inv [OF assms(2)]
  have q: "queue_inv E S" by simp
  have "\<exists>n. open_set S (fst tp) = Some n \<and> GetIndex E n = fst tp"
    if "pq_top (open_pq S) = Inr tp" for tp
  proof -
    from that have "tp \<in> set (open_pq S)" by (rule pq_top_in)
    then have "fst tp \<in> set (map fst (open_pq S))" by (simp add: image_iff) blast
    with q have "fst tp \<in> dom (open_set S)" unfolding queue_inv_def by blast
    with q show ?thesis unfolding queue_inv_def by blast
  qed
  with q show ?thesis
    unfolding queue_inv_def by auto
qed

lemma ex_init: "Plan_init free_collab 0 0 0 5 0 0 ex_bounds [] = Inr (Some ex_S0)"
  by (simp add: Plan_init_def fbind_def ValidityCheck_no_obstacles Let_def map_insert_def
      GetIndex_def GetX_def GetY_def GetPhi_def GetCost_def new_Node3d_def ex_start_def
      ex_S0_def free_collab_def)

lemma ex_primitives:
  "Next_node_generator free_collab ex_config ex_bounds ex_start (Suc 0) = Inr (Some ex_succ)"
  "Next_node_generator free_collab ex_config ex_bounds ex_start (Suc (Suc 0)) =
     Inr (Some ex_back)"
  "Next_node_generator free_collab ex_config ex_bounds ex_start (Suc (Suc (Suc 0))) =
     Inr (Some ex_back)"
proof -
  have p: "primitive_steering ex_config (Suc 0) = (0, 1)"
    "primitive_steering ex_config (Suc (Suc 0)) = (0, - 1)"
    "primitive_steering ex_config (Suc (Suc (Suc 0))) = (0, - 1)"
    by (simp_all add: primitive_steering_def ex_config_def size_t_sub_def)
  have T: "trajectory 2 (bicycle_step free_collab ex_config 0 1) (0, 0, 0) =
             [(0, 0, 0), (1, 0, 0), (2, 0, 0)]"
    "trajectory 2 (bicycle_step free_collab ex_config 0 (- 1)) (0, 0, 0) =
             [(0, 0, 0), (- 1, 0, 0), (- 2, 0, 0)]"
    by (simp_all add: numeral_2_eq_2 bicycle_step_def free_collab_def ex_config_def)
  have s: "0 < step_size ex_config" by (simp add: ex_config_def)
  show "Next_node_generator free_collab ex_config ex_bounds ex_start (Suc 0) =
      Inr (Some ex_succ)"
    "Next_node_generator free_collab ex_config ex_bounds ex_start (Suc (Suc 0)) =
      Inr (Some ex_back)"
    "Next_node_generator free_collab ex_config ex_bounds ex_start (Suc (Suc (Suc 0))) =
      Inr (Some ex_back)"
    unfolding Next_node_generator_eq [OF s]
    by (simp_all add: p substeps_ex_config T ex_start_def new_Node3d_def GetX_def GetY_def
        GetPhi_def ex_bounds_def ex_succ_def ex_back_def)
qed

lemma ex_indices:
  "GetIndex free_collab ex_succ = ''far''" "GetIndex free_collab ex_back = ''near''"
  "GetIndex free_collab ex_start = ''near''" "GetIndex free_collab ex_pushed = ''far''"
  by (simp_all add: GetIndex_def GetX_def ex_succ_def ex_back_def ex_start_def ex_pushed_def
      new_Node3d_def free_collab_def)

lemma ex_cost: "CalculateNodeCost free_collab ex_config ex_start ex_succ = ex_pushed"
  by (simp add: CalculateNodeCost_def TrajCost_def HoloObstacleHeuristic_def Let_def
      SetTrajCost_def SetHeuCost_def GetStepSize_def size_t_sub_def ex_succ_def ex_start_def
      new_Node3d_def ex_pushed_def ex_config_def free_collab_def)

lemma ex_expand: "expand_loop free_collab ex_config ex_start 0 ex_mid = Inr ex_S1"
proof -
  have n: "next_node_num ex_config = 4" by (simp add: ex_config_def)
  have obs: "obstacles_linesegments_vec ex_mid = []" "XYbounds_m ex_mid = ex_bounds"
    by (simp_all add: ex_mid_def ex_S0_def)
  have e0: "expand_one free_collab ex_config ex_start 0 ex_mid = Inr ex_S1"
    by (simp add: expand_one_def obs ex_successor fbind_def ex_indices ex_cost
        ValidityCheck_no_obstacles Let_def map_insert_def)
      (simp add: ex_mid_def ex_S0_def ex_S1_def GetCost_def ex_pushed_def)
  have obs1: "obstacles_linesegments_vec ex_S1 = []" "XYbounds_m ex_S1 = ex_bounds"
    by (simp_all add: ex_S1_def)
  have e1: "expand_one free_collab ex_config ex_start (Suc 0) ex_S1 = Inr ex_S1"
    by (simp add: expand_one_def obs1 ex_primitives fbind_def ex_indices
        ValidityCheck_no_obstacles)
      (simp add: ex_S1_def)
  have e2: "expand_one free_collab ex_config ex_start (Suc (Suc 0)) ex_S1 = Inr ex_S1"
    "expand_one free_collab ex_config ex_start (Suc (Suc (Suc 0))) ex_S1 = Inr ex_S1"
    by (simp_all add: expand_one_def obs1 ex_primitives fbind_def ex_indices)
      (simp_all add: ex_S1_def)
  have "expand_loop free_collab ex_config ex_start (Suc (Suc (Suc (Suc 0)))) ex_S1 = Inr ex_S1"
    by (subst expand_loop.simps) (simp add: n)
  then have "expand_loop free_collab ex_config ex_start (Suc (Suc (Suc 0))) ex_S1 = Inr ex_S1"
    by (subst expand_loop.simps) (simp add: n e2)
  then have "expand_loop free_collab ex_config ex_start (Suc (Suc 0)) ex_S1 = Inr ex_S1"
    by (subst expand_loop.simps) (simp add: n e2)
  then have "expand_loop free_collab ex_config ex_start (Suc 0) ex_S1 = Inr ex_S1"
    by (subst expand_loop.simps) (simp add: n e1)
  then show ?thesis
    by (subst expand_loop.simps) (simp add: n e0)
qed

lemma ex_iter: "Plan_iter free_collab ex_config ex_S0 = Inr (False, ex_S1)"
proof -
  have "open_set ex_S0 ''near'' = Some ex_start" "open_pq ex_S0 = [(''near'', 0)]"
    by (simp_all add: ex_S0_def)
  moreover have "ex_S0\<lparr>open_pq := [], popped_log := popped_log ex_S0 @ [''near''],
                     close_set := map_insert (close_set ex_S0) ''near'' ex_start\<rparr> = ex_mid"
    by (simp add: ex_mid_def ex_S0_def map_insert_def)
  ultimately show ?thesis
    by (simp add: Plan_iter_def pq_top_def pq_pop_def fbind_def Let_def AnalyticExpansion_def
        free_collab_def [THEN arg_cong, of ShortestRSP] ex_indices ex_expand)
qed

lemma ex_iter_stale: "Plan_iter free_collab ex_config ex_stale = Inr (False, ex_S1)"
proof -
  have "open_set ex_stale ''near'' = Some ex_start" "open_pq ex_stale = [(''near'', 0)]"
    by (simp_all add: ex_stale_def ex_S0_def)
  moreover have "ex_stale\<lparr>open_pq := [], popped_log := popped_log ex_stale @ [''near''],
                     close_set := map_insert (close_set ex_stale) ''near'' ex_start\<rparr> = ex_mid"
    by (simp add: ex_mid_def ex_stale_def ex_S0_def map_insert_def)
  ultimately show ?thesis
    by (simp add: Plan_iter_def pq_top_def pq_pop_def fbind_def Let_def AnalyticExpansion_def
        free_collab_def [THEN arg_cong, of ShortestRSP] ex_indices ex_expand)
qed

lemma ex_reach: "Plan_reach free_collab ex_config ex_S0 (False, ex_S1)"
proof (rule Plan_reach.iterate)
  show "Plan_reach free_collab ex_config ex_S0 (False, ex_S0)" by (rule Plan_reach.enter)
  show "open_pq ex_S0 \<noteq> []" by (simp add: ex_S0_def)
  show "Plan_iter free_collab ex_config ex_S0 = Inr (False, ex_S1)" by (rule ex_iter)
qed

text \<open>
  An instance of C10: the state after the first iteration of the search from
  \<open>(0, 0, 0)\<close> to \<open>(5, 0, 0)\<close> in free space.
\<close>

theorem Plan_queue_invariant_witness:
  "Plan_init free_collab 0 0 0 5 0 0 ex_bounds [] = Inr (Some ex_S0) \<and>
   Plan_reach free_collab ex_config ex_S0 (False, ex_S1) \<and>
   pushed_log ex_S1 = [''near'', ''far''] \<and>
   set (pushed_log ex_S1) \<subseteq> dom (open_set ex_S1) \<and>
   distinct (pushed_log ex_S1) \<and> distinct (popped_log ex_S1) \<and>
   pq_top (open_pq ex_S1) = Inr (''far'', 2) \<and>
   (\<exists>n. open_set ex_S1 ''far'' = Some n \<and> GetIndex free_collab n = ''far'')"
proof -
  have t: "pq_top (open_pq ex_S1) = Inr (''far'', 2)"
    by (simp add: pq_top_def ex_S1_def)
  note inv = Plan_queue_invariant [OF ex_init ex_reach]
  from inv t have "\<exists>n. open_set ex_S1 (fst (''far'', 2::real)) = Some n \<and>
      GetIndex free_collab n = fst (''far'', 2::real)"
    by blast
  then have "\<exists>n. open_set ex_S1 ''far'' = Some n \<and> GetIndex free_collab n = ''far''"
    by simp
  moreover have "pushed_log ex_S1 = [''near'', ''far'']" by (simp add: ex_S1_def)
  ultimately show ?thesis
    using inv t ex_init ex_reach by blast
qed




text \<open>
  The two loop bodies are different functions: on \<open>ex_stale\<close>, where the entry at the top
  of the queue is already closed, the source's iteration expands the node and the
  other one skips it. No execution of Plan reaches such a state.
\<close>

lemma Plan_iter_checked_differs:
  "close_set ex_stale ''near'' = Some ex_start \<and>
   Plan_iter free_collab ex_config ex_stale = Inr (False, ex_S1) \<and>
   Plan_iter_checked free_collab ex_config ex_stale =
     Inr (False, ex_stale\<lparr>open_pq := [], popped_log := [''near'']\<rparr>)"
  by (simp add: ex_iter_stale Plan_iter_checked_def fbind_def)
    (simp add: pq_top_def pq_pop_def ex_stale_def ex_S0_def)

subsection \<open>The final node of the search\<close>

text \<open>
  When the Reeds-Shepp curves start at the pose of the node they are computed for, the
  final node of the search has a linked chain of predecessors that starts at the start
  node, so the reconstruction succeeds on it, starts at the start pose and ends at the
  last pose of the curve.
\<close>

text \<open>
  What a returned node looks like, for any configuration; its chain of predecessors is
  linked when the chain of the current node is.
\<close>

lemma Next_node_generator_node:
  assumes "Next_node_generator E C B cur i = Inr (Some n)"
  shows "\<exists>T steering d. T = trajectory (substeps C) (bicycle_step E C steering d)
                               (GetX cur, GetY cur, GetPhi cur) \<and>
           n = Node3d (map fst T) (map (fst \<circ> snd) T) (map (snd \<circ> snd) T)
                 (Some cur) (0 < d) steering 0 0"
proof -
  obtain steering d where sd: "primitive_steering C i = (steering, d)"
    by (cases "primitive_steering C i")
  from assms have "n = Node3d
      (map fst (trajectory (substeps C) (bicycle_step E C steering d)
         (GetX cur, GetY cur, GetPhi cur)))
      (map (fst \<circ> snd) (trajectory (substeps C) (bicycle_step E C steering d)
         (GetX cur, GetY cur, GetPhi cur)))
      (map (snd \<circ> snd) (trajectory (substeps C) (bicycle_step E C steering d)
         (GetX cur, GetY cur, GetPhi cur)))
      (Some cur) (0 < d) steering 0 0"
    by (simp add: Next_node_generator_def primitive_poses_eq sd Let_def
        SetSteer_def SetDirec_def SetPre_def new_Node3d_def split: if_splits)
  then show ?thesis by blast
qed

lemma Next_node_generator_step_size:
  assumes "Next_node_generator E C B cur i = Inr (Some n)"
  shows "GetStepSize n = substeps C + 1"
  using Next_node_generator_node [OF assms] by (auto simp: GetStepSize_def)

lemma hd_map_trajectory [simp]: "hd (map g (trajectory k f p)) = g p"
  by (cases k) simp_all

lemma trajectory_not_Nil [simp]: "trajectory k f p \<noteq> []"
  by (cases k) simp_all

lemma linked_step:
  "linked sel (Node3d xs ys phis (Some pre) d s tc hc) \<longleftrightarrow>
     sel (Node3d xs ys phis (Some pre) d s tc hc) \<noteq> [] \<and>
     hd (sel (Node3d xs ys phis (Some pre) d s tc hc)) = last (sel pre) \<and> linked sel pre"
  by simp

lemma Next_node_generator_chain_ok:
  assumes "Next_node_generator E C B cur i = Inr (Some n)" "chain_ok cur"
  shows "chain_ok n \<and> hd (ancestry n) = hd (ancestry cur)"
proof -
  from Next_node_generator_node [OF assms(1)] obtain T steering d where
    T: "T = trajectory (substeps C) (bicycle_step E C steering d) (GetX cur, GetY cur, GetPhi cur)"
    and n: "n = Node3d (map fst T) (map (fst \<circ> snd) T) (map (snd \<circ> snd) T)
                 (Some cur) (0 < d) steering 0 0"
    by blast
  from assms(2) show ?thesis
    unfolding n chain_ok_def
    by (simp add: T GetX_def GetY_def GetPhi_def)
qed

lemma linked_costs:
  assumes "GetXs m = GetXs n" "GetYs m = GetYs n" "GetPhis m = GetPhis n"
    "GetPreNode m = GetPreNode n" "sel = GetXs \<or> sel = GetYs \<or> sel = GetPhis"
  shows "linked sel m = linked sel n"
  using assms by (cases m; cases n; cases "GetPreNode n") auto

lemma chain_ok_costs:
  "chain_ok (CalculateNodeCost E C cur n) = chain_ok n"
  unfolding chain_ok_def
  by (intro arg_cong2 [where f = "(\<and>)"] linked_costs)
     (simp_all add: CalculateNodeCost_def Let_def SetTrajCost_def SetHeuCost_def)

lemma root_costs:
  "GetPreNode n \<noteq> None \<Longrightarrow>
     hd (ancestry (CalculateNodeCost E C cur n)) = hd (ancestry n)"
  by (cases n; cases "GetPreNode n")
     (simp_all add: CalculateNodeCost_def Let_def SetTrajCost_def SetHeuCost_def)

lemma expand_one_chain:
  assumes "expand_one E C cur i S = Inr S'" "chain_inv S"
    and "chain_ok cur" "hd (ancestry cur) = start_node S"
  shows "chain_inv S' \<and> start_node S' = start_node S"
proof (cases "S' = S")
  case True
  with assms(2) show ?thesis by simp
next
  case False
  with assms(1) obtain n where
    gen: "Next_node_generator E C (XYbounds_m S) cur i = Inr (Some n)"
    and S': "S' = S\<lparr>open_set := (open_set S)(GetIndex E n \<mapsto> CalculateNodeCost E C cur n),
                    open_pq := open_pq S @ [(GetIndex E n, GetCost (CalculateNodeCost E C cur n))],
                    pushed_log := pushed_log S @ [GetIndex E n]\<rparr>"
    by (auto simp: expand_one_def fbind_def Let_def map_insert_def
        split: sum.splits option.splits if_splits)
  from Next_node_generator_chain_ok [OF gen assms(3)] assms(4)
  have n: "chain_ok n" "hd (ancestry n) = start_node S" by simp_all
  from Next_node_generator_node [OF gen] have "GetPreNode n \<noteq> None" by auto
  with n have "chain_ok (CalculateNodeCost E C cur n)"
    "hd (ancestry (CalculateNodeCost E C cur n)) = start_node S"
    by (simp_all add: chain_ok_costs root_costs)
  with assms(2) show ?thesis
    unfolding S' chain_inv_def by auto
qed

lemma expand_loop_chain:
  assumes "expand_loop E C cur i S = Inr S'" "chain_inv S"
    and "chain_ok cur" "hd (ancestry cur) = start_node S"
  shows "chain_inv S' \<and> start_node S' = start_node S"
  using assms
proof (induction E C cur i S rule: expand_loop.induct)
  case (1 E C cur i S)
  show ?case
  proof (cases "i < next_node_num C")
    case False
    with "1.prems" show ?thesis by (simp add: expand_loop.simps)
  next
    case True
    with "1.prems"(1) obtain S1 where
      one: "expand_one E C cur i S = Inr S1"
      and more: "expand_loop E C cur (i + 1) S1 = Inr S'"
      by (subst (asm) expand_loop.simps) (auto split: sum.splits)
    from expand_one_chain [OF one "1.prems"(2-4)]
    have a: "chain_inv S1" "start_node S1 = start_node S" by simp_all
    from "1.IH" [OF True one more a(1) "1.prems"(3)] a "1.prems"(4) show ?thesis by simp
  qed
qed

lemma AnalyticExpansion_chain:
  assumes "AnalyticExpansion E S cur = Inr (found, S')" "chain_inv S"
    and "chain_ok cur" "hd (ancestry cur) = start_node S" "rsp_starts_at_current E"
  shows "chain_inv S' \<and> start_node S' = start_node S"
proof (cases found)
  case False
  with AnalyticExpansion_frame [OF assms(1)] assms(2) show ?thesis by simp
next
  case True
  with assms(1) obtain rx ry rphi where
    rsp: "ShortestRSP E cur (end_node S) = Some (rx, ry, rphi)"
    and ne: "rx \<noteq> []" "ry \<noteq> []" "rphi \<noteq> []"
    and S': "S' = S\<lparr>close_set := map_insert (close_set S)
                        (GetIndex E (SetPre cur (new_Node3d rx ry rphi)))
                        (SetPre cur (new_Node3d rx ry rphi)),
                    final_node := Some (SetPre cur (new_Node3d rx ry rphi))\<rparr>"
    by (auto simp: AnalyticExpansion_def RSPCheck_def LoadRSPinCS_def checked_Node3d_def
        fbind_def Let_def split: option.splits sum.splits if_splits prod.splits)
  from assms(5) rsp have h: "hd rx = GetX cur" "hd ry = GetY cur" "hd rphi = GetPhi cur"
    unfolding rsp_starts_at_current_def by blast+
  have "chain_ok (SetPre cur (new_Node3d rx ry rphi))"
    "hd (ancestry (SetPre cur (new_Node3d rx ry rphi))) = start_node S"
    using assms(3,4) ne h
    by (simp_all add: chain_ok_def SetPre_def new_Node3d_def GetX_def GetY_def GetPhi_def)
  with assms(2) show ?thesis
    unfolding S' chain_inv_def by simp
qed

lemma Plan_iter_chain:
  assumes it: "Plan_iter E C S = Inr (left, S')" and ci: "chain_inv S"
    and rs: "rsp_starts_at_current E"
  shows "chain_inv S' \<and> start_node S' = start_node S"
proof -
  from it obtain tp where tp: "pq_top (open_pq S) = Inr tp"
    by (cases "pq_top (open_pq S)") (simp_all add: Plan_iter_def fbind_def)
  let ?S1 = "S\<lparr>open_pq := pq_pop (open_pq S), popped_log := popped_log S @ [fst tp]\<rparr>"
  from it tp obtain cur where cur: "open_set S (fst tp) = Some cur"
    by (cases "open_set S (fst tp)") (simp_all add: Plan_iter_def fbind_def Let_def)
  from ci cur have ch: "chain_ok cur" "hd (ancestry cur) = start_node ?S1"
    by (auto simp: chain_inv_def)
  have c1: "chain_inv ?S1" using ci by (simp add: chain_inv_def)
  from it tp cur obtain found S2 where
    ae: "AnalyticExpansion E ?S1 cur = Inr (found, S2)"
    by (cases "AnalyticExpansion E ?S1 cur")
       (auto simp: Plan_iter_def fbind_def Let_def)
  from AnalyticExpansion_chain [OF ae c1 ch rs]
  have c2: "chain_inv S2" "start_node S2 = start_node S" by simp_all
  show ?thesis
  proof (cases found)
    case True
    with it tp cur ae have "S' = S2"
      by (simp add: Plan_iter_def fbind_def Let_def)
    with c2 show ?thesis by simp
  next
    case False
    with AnalyticExpansion_frame [OF ae] have S2: "S2 = ?S1" by simp
    let ?S3 = "?S1\<lparr>close_set := map_insert (close_set ?S1) (GetIndex E cur) cur\<rparr>"
    from it tp cur ae False S2 have el: "expand_loop E C cur 0 ?S3 = Inr S'"
      by (auto simp: Plan_iter_def fbind_def Let_def split: sum.splits)
    have c3: "chain_inv ?S3" using ci by (simp add: chain_inv_def)
    from ch have ch3: "hd (ancestry cur) = start_node ?S3" by simp
    from expand_loop_chain [OF el c3 ch(1) ch3] show ?thesis by simp
  qed
qed

lemma Plan_init_chain:
  assumes "Plan_init E sx sy sphi ex ey ephi B obs = Inr (Some S0)"
  shows "chain_inv S0 \<and> start_node S0 = new_Node3d [sx] [sy] [sphi]"
  using assms
  by (auto simp: Plan_init_def fbind_def Let_def chain_inv_def map_insert_def chain_ok_def
      new_Node3d_def split: sum.splits if_splits)

lemma Plan_reach_chain:
  assumes "Plan_reach E C S0 lS" "chain_inv S0" "rsp_starts_at_current E"
  shows "chain_inv (snd lS) \<and> start_node (snd lS) = start_node S0"
  using assms
proof (induction rule: Plan_reach.induct)
  case enter
  then show ?case by simp
next
  case (iterate S left S')
  then have "chain_inv S" "start_node S = start_node S0" by simp_all
  with Plan_iter_chain [OF iterate.hyps(3) this(1) iterate.prems(2)] show ?case by simp
qed

lemma Plan_final_node_path:
  assumes "Plan_init E sx sy sphi ex ey ephi B obs = Inr (Some S0)"
    and "Plan_reach E C S0 (left, S)" "rsp_starts_at_current E"
    and "final_node S = Some n"
  shows "chain_ok n \<and> hd (ancestry n) = new_Node3d [sx] [sy] [sphi] \<and>
         GetResult_path n = Some (joined GetXs n, joined GetYs n, joined GetPhis n) \<and>
         hd (joined GetXs n) = sx \<and> hd (joined GetYs n) = sy \<and> hd (joined GetPhis n) = sphi \<and>
         last (joined GetXs n) = GetX n \<and> last (joined GetYs n) = GetY n \<and>
         last (joined GetPhis n) = GetPhi n"
proof -
  from Plan_init_chain [OF assms(1)] Plan_reach_chain [OF assms(2) _ assms(3)]
  have "chain_inv S" "start_node S = new_Node3d [sx] [sy] [sphi]" by simp_all
  with assms(4) have c: "chain_ok n" and r: "hd (ancestry n) = new_Node3d [sx] [sy] [sphi]"
    by (auto simp: chain_inv_def)
  from c have l: "linked GetXs n" "linked GetYs n" "linked GetPhis n"
    by (simp_all add: chain_ok_def)
  have p: "GetResult_path n = Some (joined GetXs n, joined GetYs n, joined GetPhis n)"
    unfolding GetResult_path_def GetResult_loop_joined [OF l]
    by (simp add: joined_def GetX_def GetY_def GetPhi_def)
  show ?thesis
    using c r p l by (simp add: hd_joined last_joined GetX_def GetY_def GetPhi_def new_Node3d_def)
qed

section \<open>Plan without obstacles\<close>

lemma far_init:
  "Plan_init direct_collab 100 0 0 0 0 0 ex_bounds [] =
     Inr (Some \<lparr>open_set = [''far'' \<mapsto> far_start], close_set = Map.empty,
                open_pq = [(''far'', 0)], final_node = None,
                obstacles_linesegments_vec = [], XYbounds_m = ex_bounds,
                start_node = far_start, end_node = new_Node3d [0] [0] [0],
                pushed_log = [''far''], popped_log = []\<rparr>)"
  by (simp add: Plan_init_def fbind_def ValidityCheck_no_obstacles Let_def map_insert_def
      GetIndex_def GetX_def GetY_def GetPhi_def GetCost_def new_Node3d_def far_start_def
      direct_collab_def free_collab_def)

lemma far_iter:
  "Plan_iter direct_collab ex_config
     \<lparr>open_set = [''far'' \<mapsto> far_start], close_set = Map.empty,
      open_pq = [(''far'', 0)], final_node = None,
      obstacles_linesegments_vec = [], XYbounds_m = ex_bounds,
      start_node = far_start, end_node = new_Node3d [0] [0] [0],
      pushed_log = [''far''], popped_log = []\<rparr> =
   Inr (True,
     \<lparr>open_set = [''far'' \<mapsto> far_start], close_set = [''near'' \<mapsto> far_final],
      open_pq = [], final_node = Some far_final,
      obstacles_linesegments_vec = [], XYbounds_m = ex_bounds,
      start_node = far_start, end_node = new_Node3d [0] [0] [0],
      pushed_log = [''far''], popped_log = [''far'']\<rparr>)"
  by (simp add: Plan_iter_def fbind_def pq_top_def pq_pop_def Let_def AnalyticExpansion_def
      RSPCheck_def LoadRSPinCS_def checked_Node3d_def ValidityCheck_no_obstacles map_insert_def
      GetIndex_def GetX_def GetY_def GetPhi_def new_Node3d_def far_start_def far_final_def
      SetPre_def direct_collab_def free_collab_def)

lemma far_path: "GetResult_path far_final = Some ([100, 0], [0, 0], [0, 0])"
  by (simp add: GetResult_path_def far_final_def far_start_def new_Node3d_def GetX_def GetY_def
      GetPhi_def)

text \<open>
  C1 at the start pose \<open>(100, 0, 0)\<close>, outside \<open>ex_bounds\<close>, with an empty obstacle
  list. \<open>ValidityCheck\<close> returns true before it looks at the bounds, and Plan returns
  true with a result. The same pose is rejected as soon as the list holds an obstacle,
  even one without a segment.
\<close>

theorem Plan_accepts_start_outside_bounds:
  "\<not> pose_valid direct_collab [] ex_bounds (100, 0, 0) \<and>
   ValidityCheck direct_collab [] ex_bounds (new_Node3d [100] [0] [0]) = Inr True \<and>
   ValidityCheck direct_collab [[]] ex_bounds (new_Node3d [100] [0] [0]) = Inr False \<and>
   (\<exists>r. Plan 1 direct_collab ex_config 100 0 0 0 0 0 ex_bounds [] ex_result =
          Inr (Some (True, r)))"
proof -
  have "\<exists>r. GetResult direct_collab ex_config far_final ex_result = Inr (True, r)"
    using GetResult_finite_differences [OF far_path, of 2 ex_config ex_result direct_collab]
    by (auto simp: ex_config_def ex_result_def)
  then obtain r where g: "GetResult direct_collab ex_config far_final ex_result = Inr (True, r)"
    by blast
  have "Plan 1 direct_collab ex_config 100 0 0 0 0 0 ex_bounds [] ex_result =
          Inr (Some (True, r))"
    by (simp add: Plan_def far_init far_iter fbind_def g)
  moreover have "\<not> pose_valid direct_collab [] ex_bounds (100, 0, 0)"
    by (simp add: pose_valid_def ex_bounds_def)
  moreover have "ValidityCheck direct_collab [[]] ex_bounds (new_Node3d [100] [0] [0]) =
      Inr False"
    by (simp add: ValidityCheck_def ValidityCheck_loop.simps GetStepSize_def new_Node3d_def
        ex_bounds_def Let_def)
  ultimately show ?thesis
    by (auto simp: ValidityCheck_no_obstacles)
qed

end
